theory Spec2Isabelle
  imports Main "HOL-Library.Sublist"
begin

section \<open>Python values used by the server\<close>

text \<open>
  The server is a Python 2 program: its strings are byte strings, modelled as
  \<^typ>\<open>string\<close> (a list of 8-bit characters).  Exceptions are values of the type
  \<open>error\<close>; a function that can raise returns a sum with \<open>Inl\<close> for the exception.
\<close>

datatype errno = EINTR | EBADF | EPIPE | EOTHER

datatype error =
    ValueError
  | IndexError
  | TypeError
  | AttributeError string
  | ImportError string
  | NameError string
  | SocketError errno
  | AppError string

definition CR :: char where "CR = CHR 0x0D"
definition LF :: char where "LF = CHR 0x0A"
definition CRLF :: string where "CRLF = [CR, LF]"

subsection \<open>String methods\<close>

text \<open>\<open>find_idx sub s\<close> is the least index at which \<open>sub\<close> occurs in \<open>s\<close>, if any.\<close>

fun find_idx :: "string \<Rightarrow> string \<Rightarrow> nat option" where
  "find_idx sub [] = (if sub = [] then Some 0 else None)"
| "find_idx sub (c # cs) =
     (if prefix sub (c # cs) then Some 0 else map_option Suc (find_idx sub cs))"

text \<open>\<open>s.find(sub)\<close>: the index of the first occurrence, or \<open>-1\<close>.\<close>

definition str_find :: "string \<Rightarrow> string \<Rightarrow> int" where
  "str_find s sub = (case find_idx sub s of None \<Rightarrow> - 1 | Some i \<Rightarrow> int i)"

text \<open>\<open>sub in s\<close>.\<close>

definition str_in :: "string \<Rightarrow> string \<Rightarrow> bool" where
  "str_in sub s = (find_idx sub s \<noteq> None)"

text \<open>\<open>s.partition(sep)\<close>: split at the first occurrence of \<open>sep\<close>.\<close>

definition str_partition :: "string \<Rightarrow> string \<Rightarrow> string \<times> string \<times> string" where
  "str_partition s sep =
     (case find_idx sep s of
        None \<Rightarrow> (s, [], [])
      | Some i \<Rightarrow> (take i s, sep, drop (i + length sep) s))"

lemma find_idx_bound: "find_idx sub s = Some i \<Longrightarrow> i + length sub \<le> length s"
proof (induction s arbitrary: i)
  case Nil
  then show ?case by (simp split: if_splits)
next
  case (Cons c cs)
  show ?case
  proof (cases "prefix sub (c # cs)")
    case True
    with Cons.prems have "i = 0" by simp
    with prefix_length_le[OF True] show ?thesis by simp
  next
    case False
    with Cons.prems obtain j where "find_idx sub cs = Some j" "i = Suc j" by auto
    with Cons.IH show ?thesis by simp
  qed
qed

section \<open>Percent-decoding\<close>

text \<open>
  The lookup table \<open>charfromhex\<close> is filled by a loop over \<open>xrange(256)\<close> that stores
  \<open>chr(i)\<close> under the two keys \<open>"%02x" % i\<close> and \<open>"%02X" % i\<close>.
\<close>

definition hexdigits_lower :: string where "hexdigits_lower = ''0123456789abcdef''"
definition hexdigits_upper :: string where "hexdigits_upper = ''0123456789ABCDEF''"

definition format_02x :: "nat \<Rightarrow> string" where
  "format_02x i = [hexdigits_lower ! (i div 16), hexdigits_lower ! (i mod 16)]"

definition format_02X :: "nat \<Rightarrow> string" where
  "format_02X i = [hexdigits_upper ! (i div 16), hexdigits_upper ! (i mod 16)]"

definition chr :: "nat \<Rightarrow> string" where
  "chr i = [char_of i]"

definition charfromhex :: "string \<rightharpoonup> string" where
  "charfromhex =
     fold (\<lambda>i d. d(format_02x i \<mapsto> chr i, format_02X i \<mapsto> chr i)) [0..<256] Map.empty"

text \<open>\<open>d.get(key, default)\<close>.\<close>

definition dict_get :: "('k \<rightharpoonup> 'v) \<Rightarrow> 'k \<Rightarrow> 'v \<Rightarrow> 'v" where
  "dict_get d k dflt = (case d k of None \<Rightarrow> dflt | Some v \<Rightarrow> v)"

text \<open>
  The loop of \<open>urlunquote\<close>, with the two variables \<open>unquoted\<close> and \<open>quoted\<close> it
  updates.  Every round removes at least the \<open>%\<close> from \<open>quoted\<close>.
\<close>

function urlunquote_loop :: "string \<Rightarrow> string \<Rightarrow> string" where
  "urlunquote_loop unquoted quoted =
     (if str_in ''%'' quoted then
        (let p = str_partition quoted ''%'';
             before = fst p;
             after = snd (snd p);
             code = take 2 after;
             quoted' = drop 2 after
         in urlunquote_loop
              (unquoted @ before @ dict_get charfromhex code (''%'' @ code)) quoted')
      else unquoted @ quoted)"
  by pat_completeness auto
termination
proof (relation "measure (\<lambda>(unquoted, quoted). length quoted)")
  show "wf (measure (\<lambda>(unquoted, quoted). length quoted))" by simp
next
  fix unquoted quoted :: string and p before after code quoted'
  assume "str_in ''%'' quoted" and p: "p = str_partition quoted ''%''"
    and a: "after = snd (snd p)" and q: "quoted' = drop 2 after"
  then obtain i where i: "find_idx ''%'' quoted = Some i"
    by (auto simp: str_in_def)
  from find_idx_bound[OF i] have "i + 1 \<le> length quoted" by simp
  moreover from i p a have "after = drop (i + 1) quoted"
    by (simp add: str_partition_def)
  ultimately have "length quoted' < length quoted" using q by simp
  then show "((unquoted @ before @ dict_get charfromhex code (''%'' @ code), quoted'),
              (unquoted, quoted)) \<in> measure (\<lambda>(unquoted, quoted). length quoted)"
    by simp
qed

declare urlunquote_loop.simps [simp del]

definition urlunquote :: "string \<Rightarrow> string" where
  "urlunquote quoted = urlunquote_loop [] quoted"

subsection \<open>What the table holds\<close>

lemma fold_upd2_None:
  "fold (\<lambda>i d. d(f i \<mapsto> c i, g i \<mapsto> c i)) xs m k = None \<longleftrightarrow>
   m k = None \<and> (\<forall>i\<in>set xs. f i \<noteq> k \<and> g i \<noteq> k)"
  by (induction xs rule: rev_induct) auto

lemma fold_upd2_Some:
  assumes "i \<in> set xs" "f i = k \<or> g i = k"
    and "\<And>j. j \<in> set xs \<Longrightarrow> f j = k \<or> g j = k \<Longrightarrow> c j = c i"
  shows "fold (\<lambda>i d. d(f i \<mapsto> c i, g i \<mapsto> c i)) xs m k = Some (c i)"
  using assms
proof (induction xs rule: rev_induct)
  case Nil
  then show ?case by simp
next
  case (snoc x xs)
  let ?F = "fold (\<lambda>i d. d(f i \<mapsto> c i, g i \<mapsto> c i))"
  have step: "?F (xs @ [x]) m k = (if g x = k then Some (c x) else if f x = k then Some (c x) else ?F xs m k)"
    by simp
  show ?case
  proof (cases "f x = k \<or> g x = k")
    case True
    have "x \<in> set (xs @ [x])" by simp
    from snoc.prems(3)[OF this True] have "c x = c i" .
    with True step show ?thesis by presburger
  next
    case False
    with snoc.prems(1,2) have mem: "i \<in> set xs" by auto
    have "?F xs m k = Some (c i)"
    proof (rule snoc.IH[OF mem snoc.prems(2)])
      fix j assume "j \<in> set xs" and fg: "f j = k \<or> g j = k"
      then have "j \<in> set (xs @ [x])" by simp
      from snoc.prems(3)[OF this fg] show "c j = c i" .
    qed
    with False step show ?thesis by presburger
  qed
qed
lemma hexdigits_cross:
  "\<forall>a\<in>set [0..<16]. \<forall>b\<in>set [0..<16]. hexdigits_lower ! a = hexdigits_upper ! b \<longrightarrow> a = b"
  unfolding hexdigits_lower_def hexdigits_upper_def
  by (simp add: upt_rec)

lemma hexdigits_ll:
  "a < 16 \<Longrightarrow> b < 16 \<Longrightarrow> hexdigits_lower ! a = hexdigits_lower ! b \<Longrightarrow> a = b"
  using nth_eq_iff_index_eq[of hexdigits_lower a b]
  by (simp add: hexdigits_lower_def)

lemma hexdigits_uu:
  "a < 16 \<Longrightarrow> b < 16 \<Longrightarrow> hexdigits_upper ! a = hexdigits_upper ! b \<Longrightarrow> a = b"
  using nth_eq_iff_index_eq[of hexdigits_upper a b]
  by (simp add: hexdigits_upper_def)

lemma hexdigits_lu:
  "a < 16 \<Longrightarrow> b < 16 \<Longrightarrow> hexdigits_lower ! a = hexdigits_upper ! b \<Longrightarrow> a = b"
  using hexdigits_cross by simp

lemma divmod16_eq: "(i::nat) div 16 = j div 16 \<Longrightarrow> i mod 16 = j mod 16 \<Longrightarrow> i = j"
  by (metis div_mult_mod_eq)

lemma format_inj:
  assumes "i < 256" "j < 256"
  shows "format_02x i = format_02x j \<Longrightarrow> i = j"
    and "format_02X i = format_02X j \<Longrightarrow> i = j"
    and "format_02x i = format_02X j \<Longrightarrow> i = j"
proof -
  from assms have b: "i div 16 < 16" "j div 16 < 16" "i mod 16 < 16" "j mod 16 < 16"
    by auto
  {
    assume "format_02x i = format_02x j"
    then have "hexdigits_lower ! (i div 16) = hexdigits_lower ! (j div 16)"
      and "hexdigits_lower ! (i mod 16) = hexdigits_lower ! (j mod 16)"
      by (simp_all add: format_02x_def)
    then have "i div 16 = j div 16" "i mod 16 = j mod 16"
      using b hexdigits_ll by blast+
    then show "i = j" by (rule divmod16_eq)
  next
    assume "format_02X i = format_02X j"
    then have "hexdigits_upper ! (i div 16) = hexdigits_upper ! (j div 16)"
      and "hexdigits_upper ! (i mod 16) = hexdigits_upper ! (j mod 16)"
      by (simp_all add: format_02X_def)
    then have "i div 16 = j div 16" "i mod 16 = j mod 16"
      using b hexdigits_uu by blast+
    then show "i = j" by (rule divmod16_eq)
  next
    assume "format_02x i = format_02X j"
    then have "hexdigits_lower ! (i div 16) = hexdigits_upper ! (j div 16)"
      and "hexdigits_lower ! (i mod 16) = hexdigits_upper ! (j mod 16)"
      by (simp_all add: format_02x_def format_02X_def)
    then have "i div 16 = j div 16" "i mod 16 = j mod 16"
      using b hexdigits_lu by blast+
    then show "i = j" by (rule divmod16_eq)
  }
qed

lemma charfromhex_format:
  assumes "i < 256"
  shows "charfromhex (format_02x i) = Some (chr i)"
    and "charfromhex (format_02X i) = Some (chr i)"
proof -
  have in_set: "i \<in> set [0..<256]" using assms by simp
  show "charfromhex (format_02x i) = Some (chr i)"
    unfolding charfromhex_def
  proof (rule fold_upd2_Some[OF in_set])
    show "format_02x i = format_02x i \<or> format_02X i = format_02x i" by simp
  next
    fix j assume "j \<in> set [0..<256]" "format_02x j = format_02x i \<or> format_02X j = format_02x i"
    with assms format_inj[of i j] format_inj[of j i] have "j = i" by auto
    then show "chr j = chr i" by simp
  qed
  show "charfromhex (format_02X i) = Some (chr i)"
    unfolding charfromhex_def
  proof (rule fold_upd2_Some[OF in_set])
    show "format_02x i = format_02X i \<or> format_02X i = format_02X i" by simp
  next
    fix j assume "j \<in> set [0..<256]" "format_02x j = format_02X i \<or> format_02X j = format_02X i"
    with assms format_inj[of i j] format_inj[of j i] have "j = i" by auto
    then show "chr j = chr i" by simp
  qed
qed

lemma format_chars:
  assumes "i < 256"
  shows "set (format_02x i) \<subseteq> set hexdigits_lower" "set (format_02X i) \<subseteq> set hexdigits_upper"
    "length (format_02x i) = 2" "length (format_02X i) = 2"
proof -
  from assms have b: "i div 16 < 16" "i mod 16 < 16" by auto
  have l: "length hexdigits_lower = 16" "length hexdigits_upper = 16"
    by (simp_all add: hexdigits_lower_def hexdigits_upper_def)
  show "set (format_02x i) \<subseteq> set hexdigits_lower" using b l by (simp add: format_02x_def)
  show "set (format_02X i) \<subseteq> set hexdigits_upper" using b l by (simp add: format_02X_def)
  show "length (format_02x i) = 2" "length (format_02X i) = 2"
    by (simp_all add: format_02x_def format_02X_def)
qed

lemma charfromhex_None:
  assumes "length k \<noteq> 2 \<or> \<not> (set k \<subseteq> set hexdigits_lower \<or> set k \<subseteq> set hexdigits_upper)"
  shows "charfromhex k = None"
  unfolding charfromhex_def fold_upd2_None
  using assms format_chars by fastforce

lemma char_of_47: "char_of (47::nat) = CHR ''/''"
  by (simp add: char_of_def bit_0)

lemma char_of_171: "char_of (171::nat) = CHR 0xAB"
  by (simp add: char_of_def bit_0)

lemma charfromhex_2f: "charfromhex ''2f'' = Some ''/''" "charfromhex ''2F'' = Some ''/''"
proof -
  have "format_02x 47 = ''2f''" "format_02X 47 = ''2F''"
    by (simp_all add: format_02x_def format_02X_def hexdigits_lower_def hexdigits_upper_def)
  with charfromhex_format[of 47]
  show "charfromhex ''2f'' = Some ''/''" "charfromhex ''2F'' = Some ''/''"
    by (simp_all add: chr_def char_of_47)
qed

lemma charfromhex_ab: "charfromhex ''ab'' = Some [CHR 0xAB]" "charfromhex ''AB'' = Some [CHR 0xAB]"
proof -
  have "format_02x 171 = ''ab''" "format_02X 171 = ''AB''"
    by (simp_all add: format_02x_def format_02X_def hexdigits_lower_def hexdigits_upper_def)
  with charfromhex_format[of 171]
  show "charfromhex ''ab'' = Some [CHR 0xAB]" "charfromhex ''AB'' = Some [CHR 0xAB]"
    by (simp_all add: chr_def char_of_171)
qed

lemma charfromhex_aB: "charfromhex ''aB'' = None" "charfromhex ''Ab'' = None"
  by (rule charfromhex_None, simp add: hexdigits_lower_def hexdigits_upper_def)+

lemma urlunquote_no_percent: "\<not> str_in ''%'' s \<Longrightarrow> urlunquote s = s"
  by (simp add: urlunquote_def urlunquote_loop.simps)

lemma urlunquote_malformed_preserved:
  "urlunquote ''%A'' = ''%A''" "urlunquote ''%GZ'' = ''%GZ''" "urlunquote ''%'' = ''%''"
proof -
  have "charfromhex ''A'' = None" "charfromhex ''GZ'' = None" "charfromhex [] = None"
    by (rule charfromhex_None, simp add: hexdigits_lower_def hexdigits_upper_def)+
  then show "urlunquote ''%A'' = ''%A''" "urlunquote ''%GZ'' = ''%GZ''" "urlunquote ''%'' = ''%''"
    by (simp_all add: urlunquote_def urlunquote_loop.simps str_in_def str_partition_def
        dict_get_def)
qed

text \<open>
  Claim C4 (the part on hexadecimal case).  The table has the all-lowercase and the
  all-uppercase spelling of every byte and nothing else: \<open>%2f\<close>, \<open>%2F\<close>, \<open>%ab\<close> and
  \<open>%AB\<close> are decoded, while the escape \<open>%aB\<close>, whose two hexadecimal digits differ in
  case, is not replaced by the byte \<open>0xAB\<close> but copied to the output as it stands.
\<close>

theorem urlunquote_mixed_case_escape:
  "urlunquote ''%2f'' = ''/'' \<and> urlunquote ''%2F'' = ''/'' \<and>
   urlunquote ''%ab'' = [CHR 0xAB] \<and> urlunquote ''%AB'' = [CHR 0xAB] \<and>
   urlunquote ''%aB'' = ''%aB'' \<and> urlunquote ''%aB'' \<noteq> [CHR 0xAB]"
  using charfromhex_2f charfromhex_ab charfromhex_aB
  by (simp add: urlunquote_def urlunquote_loop.simps str_in_def str_partition_def dict_get_def)

section \<open>The buffered stream\<close>

text \<open>
  A connected socket, as far as the server uses it.  \<open>incoming\<close> lists the byte strings
  that the successive calls of \<open>recv\<close> return; once the list is used up the peer has
  closed and \<open>recv\<close> returns the empty string.  \<open>sent\<close> collects the bytes handed to
  \<open>sendall\<close>, which is taken to deliver all of them.
\<close>

record conn =
  incoming :: "string list"
  sent :: string
  conn_closed :: bool

definition recv :: "conn \<Rightarrow> string \<times> conn" where
  "recv c = (case incoming c of [] \<Rightarrow> ([], c) | chunk # rest \<Rightarrow> (chunk, c\<lparr>incoming := rest\<rparr>))"

definition sendall :: "conn \<Rightarrow> string \<Rightarrow> conn" where
  "sendall c bytes = c\<lparr>sent := sent c @ bytes\<rparr>"

definition conn_close :: "conn \<Rightarrow> conn" where
  "conn_close c = c\<lparr>conn_closed := True\<rparr>"

text \<open>The class \<open>IOStream\<close>.\<close>

record IOStream =
  socket :: conn
  read_buffer :: string
  write_buffer :: string

definition IOStream_init :: "conn \<Rightarrow> IOStream" where
  "IOStream_init c = \<lparr>socket = c, read_buffer = [], write_buffer = []\<rparr>"

text \<open>
  The \<open>while\<close> loop of \<open>read_until\<close>: receive until the delimiter is in the read
  buffer or \<open>recv\<close> returns the empty string.
\<close>

function read_until_loop :: "IOStream \<Rightarrow> string \<Rightarrow> IOStream" where
  "read_until_loop self delimiter =
     (if \<not> str_in delimiter (read_buffer self) then
        (let (chunk, c) = recv (socket self)
         in if chunk = [] then self\<lparr>socket := c\<rparr>
            else read_until_loop
                   (self\<lparr>socket := c, read_buffer := read_buffer self @ chunk\<rparr>) delimiter)
      else self)"
  by pat_completeness auto
termination
  by (relation "measure (\<lambda>(self, delimiter). length (incoming (socket self)))")
     (auto simp: recv_def split: list.splits)

declare read_until_loop.simps [simp del]

definition read_until :: "IOStream \<Rightarrow> string \<Rightarrow> (error + string) \<times> IOStream" where
  "read_until self delimiter =
     (let self1 = read_until_loop self delimiter;
          index = str_find (read_buffer self1) delimiter
      in if \<not> index > 0 then (Inl ValueError, self1)
         else (Inr (take (nat (index + int (length delimiter))) (read_buffer self1)),
               self1\<lparr>read_buffer :=
                        drop (nat (index + int (length delimiter))) (read_buffer self1)\<rparr>))"

definition readline :: "IOStream \<Rightarrow> (error + string) \<times> IOStream" where
  "readline self =
     (case read_until self [LF] of
        (Inl ValueError, self') \<Rightarrow> (Inr [], self')
      | (Inl e, self') \<Rightarrow> (Inl e, self')
      | (Inr line, self') \<Rightarrow> (Inr line, self'))"

definition stream_write :: "IOStream \<Rightarrow> string \<Rightarrow> IOStream" where
  "stream_write self bytes = self\<lparr>write_buffer := write_buffer self @ bytes\<rparr>"

definition flush :: "IOStream \<Rightarrow> IOStream" where
  "flush self = self\<lparr>socket := sendall (socket self) (write_buffer self), write_buffer := []\<rparr>"

definition close :: "IOStream \<Rightarrow> IOStream" where
  "close self = flush self"

subsection \<open>What \<open>read_until\<close> returns\<close>

text \<open>
  \<open>available self\<close> is the buffered data followed by everything the peer sends before
  it closes; \<open>occurs_at sub s i\<close> says that \<open>sub\<close> occurs in \<open>s\<close> at index \<open>i\<close>.
\<close>

definition available :: "IOStream \<Rightarrow> string" where
  "available self =
     read_buffer self @ concat (takeWhile (\<lambda>chunk. chunk \<noteq> []) (incoming (socket self)))"

definition occurs_at :: "string \<Rightarrow> string \<Rightarrow> nat \<Rightarrow> bool" where
  "occurs_at sub s i = (i \<le> length s \<and> prefix sub (drop i s))"

lemma find_idx_Some_occurs:
  "find_idx sub s = Some i \<Longrightarrow> occurs_at sub s i \<and> (\<forall>j<i. \<not> occurs_at sub s j)"
proof (induction s arbitrary: i)
  case Nil
  then show ?case by (simp add: occurs_at_def split: if_splits)
next
  case (Cons c cs)
  show ?case
  proof (cases "prefix sub (c # cs)")
    case True
    with Cons.prems show ?thesis by (simp add: occurs_at_def)
  next
    case False
    with Cons.prems obtain k where k: "find_idx sub cs = Some k" "i = Suc k" by auto
    from Cons.IH[OF k(1)] have ih: "occurs_at sub cs k" "\<forall>j<k. \<not> occurs_at sub cs j" by simp_all
    have "occurs_at sub (c # cs) (Suc k)" using ih(1) by (simp add: occurs_at_def)
    moreover have "\<not> occurs_at sub (c # cs) j" if "j < Suc k" for j
    proof (cases j)
      case 0
      with False show ?thesis by (simp add: occurs_at_def)
    next
      case (Suc j')
      with that ih(2) show ?thesis by (simp add: occurs_at_def)
    qed
    ultimately show ?thesis using k(2) by simp
  qed
qed

lemma find_idx_None_occurs: "find_idx sub s = None \<Longrightarrow> \<not> occurs_at sub s i"
proof (induction s arbitrary: i)
  case Nil
  then show ?case by (simp add: occurs_at_def split: if_splits)
next
  case (Cons c cs)
  then have np: "\<not> prefix sub (c # cs)" and n: "find_idx sub cs = None"
    by (auto split: if_splits)
  show ?case
  proof (cases i)
    case 0
    with np show ?thesis by (simp add: occurs_at_def)
  next
    case (Suc i')
    with Cons.IH[OF n, of i'] show ?thesis by (simp add: occurs_at_def)
  qed
qed

lemma find_idx_append:
  "find_idx sub s = Some i \<Longrightarrow> find_idx sub (s @ t) = Some i"
proof (induction s arbitrary: i)
  case Nil
  then show ?case by (cases t) (simp_all split: if_splits)
next
  case (Cons c cs)
  show ?case
  proof (cases "prefix sub (c # cs)")
    case True
    then have "prefix sub ((c # cs) @ t)" by (rule prefix_prefix)
    with True Cons.prems show ?thesis by simp
  next
    case False
    with Cons.prems obtain k where k: "find_idx sub cs = Some k" "i = Suc k" by auto
    from find_idx_bound[OF k(1)] have len: "length sub \<le> length cs" by simp
    have "\<not> prefix sub ((c # cs) @ t)"
    proof
      assume "prefix sub ((c # cs) @ t)"
      then have "prefix sub (c # cs) \<or> prefix (c # cs) sub" 
        by (metis prefix_same_cases prefixI)
      with False have "prefix (c # cs) sub" by simp
      then have "length (c # cs) \<le> length sub" by (rule prefix_length_le)
      with len show False by simp
    qed
    with Cons.IH[OF k(1)] k(2) show ?thesis by simp
  qed
qed


lemma available_step:
  assumes "incoming (socket self) = chunk # rest" "chunk \<noteq> []"
  shows "available (self\<lparr>socket := (socket self)\<lparr>incoming := rest\<rparr>,
                         read_buffer := read_buffer self @ chunk\<rparr>) = available self"
  using assms by (simp add: available_def)

lemma read_until_loop_available:
  "prefix (read_buffer (read_until_loop self d)) (available self) \<and>
   (\<not> str_in d (read_buffer (read_until_loop self d)) \<longrightarrow>
      read_buffer (read_until_loop self d) = available self) \<and>
   (str_in d (read_buffer (read_until_loop self d)) \<longrightarrow>
      available (read_until_loop self d) = available self)"
proof (induction self d rule: read_until_loop.induct)
  case (1 self d)
  show ?case
  proof (cases "str_in d (read_buffer self)")
    case True
    then have "read_until_loop self d = self" by (simp add: read_until_loop.simps)
    with True show ?thesis by (simp add: available_def)
  next
    case False
    show ?thesis
    proof (cases "incoming (socket self)")
      case Nil
      with False have "read_until_loop self d = self\<lparr>socket := socket self\<rparr>"
        by (simp add: read_until_loop.simps[of self d] recv_def)
      with False Nil show ?thesis by (simp add: available_def)
    next
      case (Cons chunk rest)
      show ?thesis
      proof (cases "chunk = []")
        case True
        with False Cons
        have "read_until_loop self d = self\<lparr>socket := (socket self)\<lparr>incoming := rest\<rparr>\<rparr>"
          by (simp add: read_until_loop.simps[of self d] recv_def)
        with False Cons True show ?thesis by (simp add: available_def)
      next
        case ne: False
        let ?self2 = "self\<lparr>socket := (socket self)\<lparr>incoming := rest\<rparr>,
                           read_buffer := read_buffer self @ chunk\<rparr>"
        have r: "recv (socket self) = (chunk, (socket self)\<lparr>incoming := rest\<rparr>)"
          using Cons by (simp add: recv_def)
        have eq: "read_until_loop self d = read_until_loop ?self2 d"
          using False ne r by (simp add: read_until_loop.simps[of self d])
        have av: "available ?self2 = available self"
          using Cons ne by (rule available_step)
        from "1.IH"[OF False r[symmetric] refl ne]
        show ?thesis unfolding eq av by simp
      qed
    qed
  qed
qed

lemma read_until_loop_consumes:
  "\<exists>k. read_buffer (read_until_loop self d) =
          read_buffer self @ concat (take k (incoming (socket self))) \<and>
        incoming (socket (read_until_loop self d)) = drop k (incoming (socket self)) \<and>
        write_buffer (read_until_loop self d) = write_buffer self \<and>
        sent (socket (read_until_loop self d)) = sent (socket self) \<and>
        conn_closed (socket (read_until_loop self d)) = conn_closed (socket self)"
proof (induction self d rule: read_until_loop.induct)
  case (1 self d)
  show ?case
  proof (cases "str_in d (read_buffer self)")
    case True
    then have "read_until_loop self d = self" by (simp add: read_until_loop.simps)
    then show ?thesis by (intro exI[of _ 0]) simp
  next
    case False
    show ?thesis
    proof (cases "incoming (socket self)")
      case Nil
      with False have "read_until_loop self d = self\<lparr>socket := socket self\<rparr>"
        by (simp add: read_until_loop.simps[of self d] recv_def)
      with Nil show ?thesis by (intro exI[of _ 0]) simp
    next
      case (Cons chunk rest)
      show ?thesis
      proof (cases "chunk = []")
        case True
        with False Cons
        have "read_until_loop self d = self\<lparr>socket := (socket self)\<lparr>incoming := rest\<rparr>\<rparr>"
          by (simp add: read_until_loop.simps[of self d] recv_def)
        with Cons True show ?thesis by (intro exI[of _ 1]) simp
      next
        case ne: False
        let ?self2 = "self\<lparr>socket := (socket self)\<lparr>incoming := rest\<rparr>,
                           read_buffer := read_buffer self @ chunk\<rparr>"
        have r: "recv (socket self) = (chunk, (socket self)\<lparr>incoming := rest\<rparr>)"
          using Cons by (simp add: recv_def)
        have eq: "read_until_loop self d = read_until_loop ?self2 d"
          using False ne r by (simp add: read_until_loop.simps[of self d])
        from "1.IH"[OF False r[symmetric] refl ne]
        obtain k where k: "read_buffer (read_until_loop ?self2 d) =
              read_buffer ?self2 @ concat (take k (incoming (socket ?self2)))"
            "incoming (socket (read_until_loop ?self2 d)) = drop k (incoming (socket ?self2))"
            "write_buffer (read_until_loop ?self2 d) = write_buffer ?self2"
            "sent (socket (read_until_loop ?self2 d)) = sent (socket ?self2)"
            "conn_closed (socket (read_until_loop ?self2 d)) = conn_closed (socket ?self2)"
          by blast
        show ?thesis unfolding eq using k Cons by (intro exI[of _ "Suc k"]) simp
      qed
    qed
  qed
qed

lemma read_until_loop_find:
  "find_idx d (read_buffer (read_until_loop self d)) = find_idx d (available self)"
proof (cases "find_idx d (read_buffer (read_until_loop self d))")
  case None
  then have "\<not> str_in d (read_buffer (read_until_loop self d))" by (simp add: str_in_def)
  with read_until_loop_available[of self d] None show ?thesis by simp
next
  case (Some i)
  from read_until_loop_available[of self d]
  obtain t where "available self = read_buffer (read_until_loop self d) @ t"
    by (auto simp: prefix_def)
  with find_idx_append[OF Some, of t] Some show ?thesis by simp
qed

text \<open>
  Claim C9.  \<open>read_until\<close> raises \<open>ValueError\<close> exactly when the delimiter does not
  occur in the available bytes (the peer closes first) or occurs at index zero.
  Otherwise it returns the available bytes up to and including the first occurrence of
  the delimiter, and what it leaves in the stream (read buffer, then the chunks not yet
  received) is exactly the rest: the bytes received so far are the result followed by
  the new read buffer.
\<close>

theorem read_until_first_occurrence:
  assumes "read_until self delimiter = (r, self')"
  shows "(r = Inl ValueError \<or> (\<exists>res. r = Inr res)) \<and>
         (r = Inl ValueError \<longleftrightarrow>
            (\<forall>i. \<not> occurs_at delimiter (available self) i) \<or>
            occurs_at delimiter (available self) 0) \<and>
         (\<forall>res. r = Inr res \<longrightarrow>
            (\<exists>i k. res = take (i + length delimiter) (available self) \<and>
                   occurs_at delimiter (available self) i \<and>
                   (\<forall>j<i. \<not> occurs_at delimiter (available self) j) \<and>
                   available self = res @ available self' \<and>
                   read_buffer self @ concat (take k (incoming (socket self))) =
                     res @ read_buffer self' \<and>
                   incoming (socket self') = drop k (incoming (socket self)) \<and>
                   write_buffer self' = write_buffer self))"
proof -
  let ?self1 = "read_until_loop self delimiter"
  let ?buf = "read_buffer ?self1"
  let ?av = "available self"
  have fi: "find_idx delimiter ?buf = find_idx delimiter ?av"
    by (rule read_until_loop_find)
  from read_until_loop_consumes[of self delimiter]
  obtain k where k: "?buf = read_buffer self @ concat (take k (incoming (socket self)))"
    "incoming (socket ?self1) = drop k (incoming (socket self))"
    "write_buffer ?self1 = write_buffer self" by blast
  show ?thesis
  proof (cases "find_idx delimiter ?av")
    case None
    with fi assms have r: "r = Inl ValueError"
      by (simp add: read_until_def str_find_def Let_def)
    from find_idx_None_occurs[OF None] have "\<forall>i. \<not> occurs_at delimiter ?av i" by simp
    with r show ?thesis by simp
  next
    case (Some i)
    note occ = find_idx_Some_occurs[OF Some]
    show ?thesis
    proof (cases i)
      case 0
      with Some fi assms have r: "r = Inl ValueError"
        by (simp add: read_until_def str_find_def Let_def)
      with occ 0 show ?thesis by simp
    next
      case (Suc i')
      let ?n = "i + length delimiter"
      from Some fi have fb: "find_idx delimiter ?buf = Some i" by simp
      from Suc fb assms
      have r: "r = Inr (take ?n ?buf)" and s': "self' = ?self1\<lparr>read_buffer := drop ?n ?buf\<rparr>"
        by (auto simp: read_until_def str_find_def Let_def nat_add_distrib)
      from find_idx_bound[OF fb] have len: "?n \<le> length ?buf" .
      from read_until_loop_available[of self delimiter]
      obtain t where t: "?av = ?buf @ t" by (auto simp: prefix_def)
      have res: "take ?n ?buf = take ?n ?av" using len t by simp
      from fb have "str_in delimiter ?buf" by (simp add: str_in_def)
      with read_until_loop_available[of self delimiter]
      have av1: "available ?self1 = ?av" by simp
      have "available self' = drop ?n ?buf @
              concat (takeWhile (\<lambda>chunk. chunk \<noteq> []) (incoming (socket ?self1)))"
        by (simp add: s' available_def)
      then have "take ?n ?buf @ available self' = available ?self1"
        by (simp add: available_def)
      with av1 have split: "?av = take ?n ?buf @ available self'" by simp
      have nz: "\<not> occurs_at delimiter ?av 0" using occ Suc by simp
      have ex: "\<exists>j. occurs_at delimiter ?av j" using occ by blast
      have part3: "\<exists>i k. take ?n ?buf = take (i + length delimiter) ?av \<and>
                   occurs_at delimiter ?av i \<and>
                   (\<forall>j<i. \<not> occurs_at delimiter ?av j) \<and>
                   ?av = take ?n ?buf @ available self' \<and>
                   read_buffer self @ concat (take k (incoming (socket self))) =
                     take ?n ?buf @ read_buffer self' \<and>
                   incoming (socket self') = drop k (incoming (socket self)) \<and>
                   write_buffer self' = write_buffer self"
      proof (rule exI[of _ i], rule exI[of _ k], intro conjI)
        show "take ?n ?buf = take ?n ?av" by (rule res)
        show "occurs_at delimiter ?av i" using occ by simp
        show "\<forall>j<i. \<not> occurs_at delimiter ?av j" using occ by simp
        show "?av = take ?n ?buf @ available self'" by (rule split)
        have "read_buffer self' = drop ?n ?buf" by (simp add: s')
        then have "take ?n ?buf @ read_buffer self' = ?buf" by simp
        with k(1) show "read_buffer self @ concat (take k (incoming (socket self))) =
                     take ?n ?buf @ read_buffer self'" by simp
        show "incoming (socket self') = drop k (incoming (socket self))"
          using k(2) by (simp add: s')
        show "write_buffer self' = write_buffer self"
          using k(3) by (simp add: s')
      qed
      from r nz ex part3 show ?thesis by auto
    qed
  qed
qed

text \<open>A stream whose delimiter arrives split over two chunks.\<close>

definition demo_stream :: IOStream where
  "demo_stream = \<lparr>socket = \<lparr>incoming = [''c'' @ [CR], [LF] @ ''de'', ''f''], sent = [],
                              conn_closed = False\<rparr>,
                   read_buffer = ''ab'', write_buffer = []\<rparr>"

lemma demo_read_until:
  "read_until demo_stream CRLF =
     (Inr (''abc'' @ CRLF),
      \<lparr>socket = \<lparr>incoming = [''f''], sent = [], conn_closed = False\<rparr>,
       read_buffer = ''de'', write_buffer = []\<rparr>)"
  by (simp add: demo_stream_def read_until_def read_until_loop.simps recv_def str_in_def
      str_find_def CRLF_def CR_def LF_def)


theorem read_until_first_occurrence_witness:
  "read_until demo_stream CRLF =
     (Inr (''abc'' @ CRLF),
      \<lparr>socket = \<lparr>incoming = [''f''], sent = [], conn_closed = False\<rparr>,
       read_buffer = ''de'', write_buffer = []\<rparr>) \<and>
   \<not> occurs_at CRLF (available demo_stream) 0 \<and>
   (\<exists>i. occurs_at CRLF (available demo_stream) i \<and>
        ''abc'' @ CRLF = take (i + length CRLF) (available demo_stream))"
  using read_until_first_occurrence[OF demo_read_until] demo_read_until
  by auto

text \<open>
  Claim C10, as the code has it.  \<open>close\<close> is \<open>flush\<close> and nothing more: the whole write
  accumulator goes to the peer and is cleared, and the underlying socket is left as it
  was, in particular not closed.
\<close>

theorem close_flushes_and_keeps_socket:
  "sent (socket (close self)) = sent (socket self) @ write_buffer self \<and>
   write_buffer (close self) = [] \<and>
   read_buffer (close self) = read_buffer self \<and>
   incoming (socket (close self)) = incoming (socket self) \<and>
   conn_closed (socket (close self)) = conn_closed (socket self)"
  by (simp add: close_def flush_def sendall_def)

text \<open>
  Claim C10 as stated fails: after \<open>close\<close> on a stream holding \<open>hi\<close> over an open
  socket, the two bytes are sent and the socket is still open.
\<close>

theorem close_leaves_socket_open:
  "sent (socket (close (stream_write (IOStream_init
      \<lparr>incoming = [], sent = [], conn_closed = False\<rparr>) ''hi''))) = ''hi'' \<and>
   \<not> conn_closed (socket (close (stream_write (IOStream_init
      \<lparr>incoming = [], sent = [], conn_closed = False\<rparr>) ''hi'')))"
  by (simp add: close_def flush_def sendall_def stream_write_def IOStream_init_def)

section \<open>The response side\<close>

subsection \<open>More string methods and \<open>%\<close> formatting\<close>

text \<open>
  \<open>lower()\<close> and \<open>upper()\<close> act on the ASCII letters (byte strings, C locale).
  \<open>py_str\<close> is what \<open>%s\<close> prints for a value that is a string or \<open>None\<close>;
  \<open>format_d\<close> is \<open>%d\<close> on a natural number, \<open>rjust\<close> the padding to a minimum
  width that \<open>%02d\<close>, \<open>%4d\<close> and \<open>%3s\<close> add.
\<close>

definition ascii_uppercase :: string where "ascii_uppercase = ''ABCDEFGHIJKLMNOPQRSTUVWXYZ''"
definition ascii_lowercase :: string where "ascii_lowercase = ''abcdefghijklmnopqrstuvwxyz''"

definition str_lower :: "string \<Rightarrow> string" where
  "str_lower s = map (\<lambda>c. case map_of (zip ascii_uppercase ascii_lowercase) c of
                             Some l \<Rightarrow> l | None \<Rightarrow> c) s"

definition str_upper :: "string \<Rightarrow> string" where
  "str_upper s = map (\<lambda>c. case map_of (zip ascii_lowercase ascii_uppercase) c of
                             Some u \<Rightarrow> u | None \<Rightarrow> c) s"

definition py_str :: "string option \<Rightarrow> string" where
  "py_str x = (case x of None \<Rightarrow> ''None'' | Some s \<Rightarrow> s)"

definition digit_chars :: string where "digit_chars = ''0123456789''"

fun format_d :: "nat \<Rightarrow> string" where
  "format_d n = (if n < 10 then [digit_chars ! n]
                 else format_d (n div 10) @ [digit_chars ! (n mod 10)])"

declare format_d.simps [simp del]

definition rjust :: "nat \<Rightarrow> char \<Rightarrow> string \<Rightarrow> string" where
  "rjust width fill s = replicate (width - length s) fill @ s"

definition format_02d :: "nat \<Rightarrow> string" where
  "format_02d n = rjust 2 (CHR ''0'') (format_d n)"

definition format_4d :: "nat \<Rightarrow> string" where
  "format_4d n = rjust 4 (CHR '' '') (format_d n)"

definition format_3s :: "string option \<Rightarrow> string" where
  "format_3s x = rjust 3 (CHR '' '') (py_str x)"

subsection \<open>\<open>http_date\<close>\<close>

text \<open>
  The fields of \<open>time.gmtime()\<close> that \<open>http_date\<close> uses.  The clock is outside the
  program, so the broken-down current time is a parameter \<open>now\<close> of everything that
  formats a date.  \<open>gmtime\<close> returns \<open>tm_wday\<close> in \<open>0..6\<close> and \<open>tm_mon\<close> in \<open>1..12\<close>,
  the range in which the two tuples are indexed.
\<close>

record struct_time =
  tm_year :: nat
  tm_mon :: nat
  tm_mday :: nat
  tm_hour :: nat
  tm_min :: nat
  tm_sec :: nat
  tm_wday :: nat

definition HTTP_WDAY :: "string list" where
  "HTTP_WDAY = [''Mon'', ''Tue'', ''Wed'', ''Thu'', ''Fri'', ''Sat'', ''Sun'']"

definition HTTP_MONTH :: "string option list" where
  "HTTP_MONTH = [None, Some ''Jan'', Some ''Feb'', Some ''Mar'', Some ''Apr'', Some ''May'',
                 Some ''Jun'', Some ''Jul'', Some ''Aug'', Some ''Sep'', Some ''Oct'',
                 Some ''Nov'', Some ''Dec'']"

definition http_date :: "struct_time \<Rightarrow> string" where
  "http_date t =
     HTTP_WDAY ! tm_wday t @ '', '' @ format_02d (tm_mday t) @ '' '' @
     format_3s (HTTP_MONTH ! tm_mon t) @ '' '' @ format_4d (tm_year t) @ '' '' @
     format_02d (tm_hour t) @ '':'' @ format_02d (tm_min t) @ '':'' @
     format_02d (tm_sec t) @ '' GMT''"

subsection \<open>Applications, configuration and the worker's state\<close>

text \<open>
  Values stored in a request environment: strings, and the few other objects the
  server puts there (\<open>wsgi.version\<close>, the flags, \<open>wsgi.errors\<close>, \<open>wsgi.input\<close>).
\<close>

datatype pyval = Str string | IntPair int int | Bool bool | StderrFile | InputStream

type_synonym environ = "string \<rightharpoonup> pyval"

text \<open>
  What the application returns: an object that yields \<open>items\<close> when iterated and then
  either stops or raises; \<open>has_close\<close> says whether it has a \<open>close\<close> attribute.
  A Python list has none.
\<close>

record iterable =
  items :: "string list"
  raises :: "error option"
  has_close :: bool

definition pylist :: "string list \<Rightarrow> iterable" where
  "pylist xs = \<lparr>items = xs, raises = None, has_close = False\<rparr>"

text \<open>
  The application itself is opaque.  It is described by what it does when called: the
  calls it makes to \<open>start_response\<close> before it returns (each with status, headers,
  \<open>exc_info\<close> and the byte strings it then passes to the returned write callable), and
  whether it returns an iterable or raises.  The write callable that \<open>start_response\<close>
  returns is the bound method \<open>data.append\<close>.
\<close>

datatype sink = DataAppend

datatype app_call =
  StartResponse string "(string \<times> string) list" "error option" "string list"

record app_run =
  calls :: "app_call list"
  outcome :: "error + iterable"

type_synonym wsgi_app = "environ \<Rightarrow> app_run"

text \<open>The configuration keys that the worker process reads.\<close>

datatype app_ref = Callable wsgi_app | Dotted string

datatype logfile = FileObject | Filename string

record config =
  cfg_application :: app_ref
  cfg_access_log :: "logfile option"
  cfg_real_ip_header :: "string option"

text \<open>
  The attributes of a \<open>HornedWorkerProcess\<close>.  \<open>request_log\<close> collects the arguments
  of the calls to \<open>log.request\<close>.
\<close>

record worker =
  config :: config
  app :: wsgi_app
  access_log :: "logfile option"
  alive :: bool
  requests :: nat
  errors :: nat
  baseenv :: environ
  stream :: IOStream
  headers_sent :: bool
  request_log :: "(pyval \<times> string \<times> string \<times> nat) list"

subsection \<open>\<open>execute_request\<close> and its \<open>start_response\<close>\<close>

text \<open>The list \<open>response = [None, [], data]\<close> of \<open>execute_request\<close>.\<close>

record response =
  resp_status :: "string option"
  resp_headers :: "(string \<times> string) list"
  resp_data :: "string list"

definition start_response ::
  "worker \<Rightarrow> response \<Rightarrow> string \<Rightarrow> (string \<times> string) list \<Rightarrow> error option \<Rightarrow>
   error + sink \<times> response" where
  "start_response self response status response_headers exc_info =
     (case (case exc_info of
              Some exc \<Rightarrow> (if headers_sent self then Some exc else None)
            | None \<Rightarrow> None) of
        Some exc \<Rightarrow> Inl exc
      | None \<Rightarrow>
          Inr (DataAppend,
               response\<lparr>resp_status := Some status, resp_headers := response_headers\<rparr>))"

fun call_sink :: "sink \<Rightarrow> string \<Rightarrow> response \<Rightarrow> response" where
  "call_sink DataAppend bytes response =
     response\<lparr>resp_data := resp_data response @ [bytes]\<rparr>"

subsection \<open>\<open>send_headers\<close> and \<open>send_response\<close>\<close>

definition send_headers ::
  "struct_time \<Rightarrow> worker \<Rightarrow> string option \<Rightarrow> (string \<times> string) list \<Rightarrow> worker" where
  "send_headers now self status headers =
     (if \<not> headers_sent self then
        (let s1 = stream_write (stream self) (''HTTP/1.0 '' @ py_str status @ CRLF);
             s2 = stream_write s1 (''Date: '' @ http_date now @ CRLF);
             s3 = fold (\<lambda>header s.
                          if str_lower (fst header) \<notin> set [''connection'', ''date'']
                          then stream_write s (fst header @ '': '' @ snd header @ CRLF)
                          else s)
                       headers s2;
             s4 = stream_write s3 (''Connection: close'' @ CRLF);
             s5 = stream_write s4 CRLF
         in self\<lparr>headers_sent := True, stream := flush s5\<rparr>)
      else self)"

text \<open>
  The inner loop of \<open>send_response\<close> over the chunks of one iterable, with the running
  total, and the outer loop over the three iterables.  The outer loop's variable is
  called \<open>chunks\<close> like the parameter, so it is part of the loop state.
\<close>

fun write_chunks ::
  "struct_time \<Rightarrow> string option \<Rightarrow> (string \<times> string) list \<Rightarrow> string list \<Rightarrow>
   worker \<times> nat \<Rightarrow> worker \<times> nat" where
  "write_chunks now status headers [] st = st"
| "write_chunks now status headers (chunk # rest) (self, n) =
     (let self1 = (if \<not> headers_sent self then send_headers now self status headers
                   else self);
          self2 = self1\<lparr>stream := stream_write (stream self1) chunk\<rparr>
      in write_chunks now status headers rest (self2, n + length chunk))"

fun send_response_loop ::
  "struct_time \<Rightarrow> string option \<Rightarrow> (string \<times> string) list \<Rightarrow> iterable list \<Rightarrow>
   worker \<times> nat \<times> iterable \<Rightarrow> error option \<times> worker \<times> nat \<times> iterable" where
  "send_response_loop now status headers [] st = (None, st)"
| "send_response_loop now status headers (it # its) (self, n, chunks) =
     (case write_chunks now status headers (items it) (self, n) of
        (self', n') \<Rightarrow>
          (case raises it of
             Some e \<Rightarrow> (Some e, self', n', it)
           | None \<Rightarrow> send_response_loop now status headers its (self', n', it)))"

text \<open>
  \<open>send_response\<close> returns the length or the exception, the worker, and the list of
  objects whose \<open>close()\<close> it has called.  After the loop the name \<open>chunks\<close> refers to
  the last object iterated.
\<close>

definition send_response ::
  "struct_time \<Rightarrow> worker \<Rightarrow> string option \<Rightarrow> (string \<times> string) list \<Rightarrow> iterable \<Rightarrow>
   string list \<Rightarrow> (error + nat) \<times> worker \<times> iterable list" where
  "send_response now self status headers chunks data =
     (case send_response_loop now status headers [pylist data, chunks, pylist ['''']]
             (self, 0, chunks) of
        (Some e, self', n, chunks') \<Rightarrow> (Inl e, self', [])
      | (None, self', n, chunks') \<Rightarrow>
          (Inr n, self', if has_close chunks' then [chunks'] else []))"

fun run_calls :: "worker \<Rightarrow> app_call list \<Rightarrow> response \<Rightarrow> error + response" where
  "run_calls self [] response = Inr response"
| "run_calls self (StartResponse status hdrs exc_info writes # rest) response =
     (case start_response self response status hdrs exc_info of
        Inl e \<Rightarrow> Inl e
      | Inr (sink, response') \<Rightarrow>
          run_calls self rest (fold (call_sink sink) writes response'))"

definition execute_request ::
  "struct_time \<Rightarrow> worker \<Rightarrow> environ \<Rightarrow>
   (error + string option \<times> nat) \<times> worker \<times> iterable list" where
  "execute_request now self env =
     (let response = \<lparr>resp_status = None, resp_headers = [], resp_data = []\<rparr>
      in case run_calls self (calls (app self env)) response of
           Inl e \<Rightarrow> (Inl e, self, [])
         | Inr response' \<Rightarrow>
             (case outcome (app self env) of
                Inl e \<Rightarrow> (Inl e, self, [])
              | Inr chunks \<Rightarrow>
                  (case send_response now self (resp_status response')
                          (resp_headers response') chunks (resp_data response') of
                     (Inl e, self', closed) \<Rightarrow> (Inl e, self', closed)
                   | (Inr n, self', closed) \<Rightarrow>
                       (Inr (resp_status response', n), self', closed))))"

subsection \<open>The bytes on the wire\<close>

text \<open>
  \<open>wire self\<close> is everything written to the connection so far, in order: the bytes
  already sent, then the bytes still in the write buffer.
\<close>

definition wire :: "worker \<Rightarrow> string" where
  "wire self = sent (socket (stream self)) @ write_buffer (stream self)"

definition header_block ::
  "struct_time \<Rightarrow> string option \<Rightarrow> (string \<times> string) list \<Rightarrow> string" where
  "header_block now status headers =
     ''HTTP/1.0 '' @ py_str status @ CRLF @
     ''Date: '' @ http_date now @ CRLF @
     concat (map (\<lambda>(name, val). name @ '': '' @ val @ CRLF)
               (filter (\<lambda>(name, val). str_lower name \<noteq> ''connection'' \<and>
                                         str_lower name \<noteq> ''date'') headers)) @
     ''Connection: close'' @ CRLF @ CRLF"

lemma fold_stream_write:
  "fold (\<lambda>h s. if P h then stream_write s (f h) else s) hs s =
   s\<lparr>write_buffer := write_buffer s @ concat (map f (filter P hs))\<rparr>"
  by (induction hs arbitrary: s) (simp_all add: stream_write_def)

lemma send_headers_unsent:
  assumes "\<not> headers_sent self"
  shows "send_headers now self status headers =
     self\<lparr>headers_sent := True,
          stream := (stream self)\<lparr>
            socket := (socket (stream self))\<lparr>
              sent := sent (socket (stream self)) @ write_buffer (stream self) @
                      header_block now status headers\<rparr>,
            write_buffer := []\<rparr>\<rparr>"
proof -
  have f: "(\<lambda>h. str_lower (fst h) \<notin> set [''connection'', ''date'']) =
           (\<lambda>(name, val). str_lower name \<noteq> ''connection'' \<and> str_lower name \<noteq> ''date'')"
    by (auto simp: fun_eq_iff)
  have g: "(\<lambda>h. fst h @ '': '' @ snd h @ CRLF) = (\<lambda>(name, val). name @ '': '' @ val @ CRLF)"
    by (auto simp: fun_eq_iff)
  show ?thesis
    using assms
    unfolding send_headers_def Let_def fold_stream_write f g
    by (simp add: stream_write_def flush_def sendall_def header_block_def)
qed

lemma send_headers_sent: "headers_sent self \<Longrightarrow> send_headers now self status headers = self"
  by (simp add: send_headers_def)

lemma write_chunks_sent:
  "headers_sent self \<Longrightarrow>
   write_chunks now status headers cs (self, n) =
     (self\<lparr>stream := (stream self)\<lparr>write_buffer := write_buffer (stream self) @ concat cs\<rparr>\<rparr>,
      n + length (concat cs))"
  by (induction cs arbitrary: self n) (simp_all add: stream_write_def)

lemma write_chunks_unsent:
  assumes "\<not> headers_sent self" "cs \<noteq> []"
  shows "write_chunks now status headers cs (self, n) =
     (self\<lparr>headers_sent := True,
           stream := (stream self)\<lparr>
             socket := (socket (stream self))\<lparr>
               sent := sent (socket (stream self)) @ write_buffer (stream self) @
                       header_block now status headers\<rparr>,
             write_buffer := concat cs\<rparr>\<rparr>,
      n + length (concat cs))"
proof -
  from assms(2) obtain c rest where cs: "cs = c # rest" by (cases cs) auto
  show ?thesis
    unfolding cs
    by (simp add: assms(1) send_headers_unsent write_chunks_sent stream_write_def)
qed

lemma write_chunks_append:
  "write_chunks now status headers (xs @ ys) st =
   write_chunks now status headers ys (write_chunks now status headers xs st)"
proof (induction xs arbitrary: st)
  case Nil
  show ?case by simp
next
  case (Cons x xs)
  obtain self n where st: "st = (self, n)" by (cases st)
  show ?case unfolding st by (simp add: Cons.IH Let_def)
qed

lemma send_response_returns:
  assumes "raises chunks = None"
  shows "send_response now self status headers chunks data =
     (Inr (snd (write_chunks now status headers (data @ items chunks @ ['''']) (self, 0))),
      fst (write_chunks now status headers (data @ items chunks @ ['''']) (self, 0)), [])"
  using assms
  by (simp add: send_response_def pylist_def write_chunks_append split: prod.splits)

lemma send_response_raises:
  assumes "raises chunks = Some e"
  shows "send_response now self status headers chunks data =
     (Inl e, fst (write_chunks now status headers (data @ items chunks) (self, 0)), [])"
  using assms
  by (simp add: send_response_def pylist_def write_chunks_append split: prod.splits)

lemma send_response_closes_nothing:
  "snd (snd (send_response now self status headers chunks data)) = []"
  by (cases "raises chunks") (simp_all add: send_response_returns send_response_raises)

subsection \<open>The form of the date\<close>

definition two_digits :: "nat \<Rightarrow> string" where
  "two_digits n = [digit_chars ! (n div 10), digit_chars ! (n mod 10)]"

definition four_digits :: "nat \<Rightarrow> string" where
  "four_digits n = [digit_chars ! (n div 1000), digit_chars ! (n div 100 mod 10),
                    digit_chars ! (n div 10 mod 10), digit_chars ! (n mod 10)]"

definition gmtime_range :: "struct_time \<Rightarrow> bool" where
  "gmtime_range t =
     (tm_wday t < 7 \<and> 1 \<le> tm_mon t \<and> tm_mon t \<le> 12 \<and> 1 \<le> tm_mday t \<and> tm_mday t \<le> 31 \<and>
      tm_hour t < 24 \<and> tm_min t < 60 \<and> tm_sec t \<le> 61 \<and>
      1000 \<le> tm_year t \<and> tm_year t \<le> 9999)"

lemma format_d_digit: "n < 10 \<Longrightarrow> format_d n = [digit_chars ! n]"
  by (simp add: format_d.simps)

lemma format_d_two: "10 \<le> n \<Longrightarrow> n < 100 \<Longrightarrow> format_d n = two_digits n"
  by (subst format_d.simps) (simp add: format_d_digit two_digits_def)

lemma format_d_three:
  "100 \<le> n \<Longrightarrow> n < 1000 \<Longrightarrow>
   format_d n = [digit_chars ! (n div 100), digit_chars ! (n div 10 mod 10),
                 digit_chars ! (n mod 10)]"
  by (subst format_d.simps) (simp add: format_d_two two_digits_def div_mult2_eq[symmetric])

lemma format_d_four: "1000 \<le> n \<Longrightarrow> n < 10000 \<Longrightarrow> format_d n = four_digits n"
  by (subst format_d.simps)
     (simp add: format_d_three four_digits_def div_mult2_eq[symmetric])

lemma format_02d_two_digits: "n < 100 \<Longrightarrow> format_02d n = two_digits n"
proof (cases "n < 10")
  case True
  then show ?thesis
    by (simp add: format_02d_def rjust_def format_d_digit two_digits_def digit_chars_def)
next
  case False
  assume "n < 100"
  with False show ?thesis by (simp add: format_02d_def rjust_def format_d_two two_digits_def)
qed

lemma format_4d_four_digits: "1000 \<le> n \<Longrightarrow> n \<le> 9999 \<Longrightarrow> format_4d n = four_digits n"
  by (simp add: format_4d_def rjust_def format_d_four four_digits_def)

lemma HTTP_WDAY_names: "\<forall>d\<in>set [0..<7]. length (HTTP_WDAY ! d) = 3"
  by (simp add: HTTP_WDAY_def upt_rec)

lemma HTTP_MONTH_names:
  "\<forall>m\<in>set [1..<13]. \<exists>name. HTTP_MONTH ! m = Some name \<and> length name = 3"
  by (simp add: HTTP_MONTH_def upt_rec)

lemma http_date_format:
  assumes "gmtime_range t"
  shows "http_date t =
           HTTP_WDAY ! tm_wday t @ '', '' @ two_digits (tm_mday t) @ '' '' @
           the (HTTP_MONTH ! tm_mon t) @ '' '' @ four_digits (tm_year t) @ '' '' @
           two_digits (tm_hour t) @ '':'' @ two_digits (tm_min t) @ '':'' @
           two_digits (tm_sec t) @ '' GMT''"
    and "length (HTTP_WDAY ! tm_wday t) = 3"
    and "length (the (HTTP_MONTH ! tm_mon t)) = 3"
    and "length (http_date t) = 29"
proof -
  from assms have r: "tm_wday t \<in> set [0..<7]" "tm_mon t \<in> set [1..<13]"
    "tm_mday t < 100" "tm_hour t < 100" "tm_min t < 100" "tm_sec t < 100"
    "1000 \<le> tm_year t" "tm_year t \<le> 9999"
    by (auto simp: gmtime_range_def)
  from HTTP_MONTH_names r(2) obtain name where
    name: "HTTP_MONTH ! tm_mon t = Some name" "length name = 3" by blast
  from HTTP_WDAY_names r(1) show w: "length (HTTP_WDAY ! tm_wday t) = 3" by blast
  from name show m: "length (the (HTTP_MONTH ! tm_mon t)) = 3" by simp
  have f3: "format_3s (HTTP_MONTH ! tm_mon t) = name"
    using name by (simp add: format_3s_def rjust_def py_str_def)
  show eq: "http_date t =
           HTTP_WDAY ! tm_wday t @ '', '' @ two_digits (tm_mday t) @ '' '' @
           the (HTTP_MONTH ! tm_mon t) @ '' '' @ four_digits (tm_year t) @ '' '' @
           two_digits (tm_hour t) @ '':'' @ two_digits (tm_min t) @ '':'' @
           two_digits (tm_sec t) @ '' GMT''"
    unfolding http_date_def f3
    using r name by (simp add: format_02d_two_digits format_4d_four_digits)
  show "length (http_date t) = 29"
    unfolding eq using w m by (simp add: two_digits_def four_digits_def)
qed

lemma send_headers_wire:
  "\<not> headers_sent self \<Longrightarrow>
   wire (send_headers now self status headers) = wire self @ header_block now status headers"
  by (simp add: send_headers_unsent wire_def)

text \<open>
  Claim C7.  When headers have not been sent, \<open>send_headers\<close> puts on the wire, in this
  order: the status line \<open>HTTP/1.0 <status>\<close>, the \<open>Date\<close> header built from the current
  GMT time as three-letter weekday, comma, two-digit day, three-letter month, four-digit
  year, \<open>HH:MM:SS\<close> and \<open>GMT\<close>, one line per application header whose lowercased name is
  neither \<open>connection\<close> nor \<open>date\<close>, then \<open>Connection: close\<close> and an empty line; and
  it flushes them.  The time is one \<open>gmtime\<close> can return for a year of four digits.
\<close>

theorem send_headers_block:
  assumes "\<not> headers_sent self" and "gmtime_range now"
  shows "wire (send_headers now self status headers) =
           wire self @
           ''HTTP/1.0 '' @ py_str status @ CRLF @
           ''Date: '' @ HTTP_WDAY ! tm_wday now @ '', '' @ two_digits (tm_mday now) @ '' '' @
              the (HTTP_MONTH ! tm_mon now) @ '' '' @ four_digits (tm_year now) @ '' '' @
              two_digits (tm_hour now) @ '':'' @ two_digits (tm_min now) @ '':'' @
              two_digits (tm_sec now) @ '' GMT'' @ CRLF @
           concat (map (\<lambda>(name, val). name @ '': '' @ val @ CRLF)
                     (filter (\<lambda>(name, val). str_lower name \<noteq> ''connection'' \<and>
                                               str_lower name \<noteq> ''date'') headers)) @
           ''Connection: close'' @ CRLF @ CRLF \<and>
         length (HTTP_WDAY ! tm_wday now) = 3 \<and>
         length (the (HTTP_MONTH ! tm_mon now)) = 3 \<and>
         write_buffer (stream (send_headers now self status headers)) = [] \<and>
         headers_sent (send_headers now self status headers)"
proof -
  have w: "wire (send_headers now self status headers) =
           wire self @ header_block now status headers"
    by (rule send_headers_wire[OF assms(1)])
  have b: "write_buffer (stream (send_headers now self status headers)) = []"
    "headers_sent (send_headers now self status headers)"
    by (simp_all add: send_headers_unsent[OF assms(1)])
  show ?thesis
    unfolding w header_block_def http_date_format(1)[OF assms(2)]
    using b http_date_format(2,3)[OF assms(2)] by simp
qed

subsection \<open>A worker to run things on\<close>

text \<open>The \<open>demo_app\<close> of the source, and a worker serving it on a fresh connection.\<close>

definition demo_app :: wsgi_app where
  "demo_app environ =
     \<lparr>calls = [StartResponse ''200 OK'' [(''Content-Type'', ''text/html'')] None []],
      outcome = Inr (pylist
        [''<html><head><title>Hello world!</title></head>'' @
         ''<body><h1>Hello world!</h1></body></html>'' @ [LF, LF]])\<rparr>"

definition demo_worker :: worker where
  "demo_worker =
     \<lparr>config = \<lparr>cfg_application = Callable demo_app, cfg_access_log = Some FileObject,
                 cfg_real_ip_header = None\<rparr>,
      app = demo_app, access_log = Some FileObject, alive = True, requests = 0, errors = 0,
      baseenv = Map.empty,
      stream = IOStream_init \<lparr>incoming = [], sent = [], conn_closed = False\<rparr>,
      headers_sent = False, request_log = []\<rparr>"

definition demo_time :: struct_time where
  "demo_time = \<lparr>tm_year = 2011, tm_mon = 3, tm_mday = 7, tm_hour = 9, tm_min = 5,
                 tm_sec = 0, tm_wday = 0\<rparr>"

lemma demo_time_range: "gmtime_range demo_time"
  by (simp add: gmtime_range_def demo_time_def)

lemma demo_worker_unsent: "\<not> headers_sent demo_worker"
  by (simp add: demo_worker_def)

lemma demo_worker_wire: "wire demo_worker = []"
  by (simp add: demo_worker_def wire_def IOStream_init_def)

theorem send_headers_block_witness:
  "wire (send_headers demo_time demo_worker (Some ''200 OK'')
           [(''Content-Type'', ''text/plain''), (''DATE'', ''yesterday''),
            (''connection'', ''keep-alive'')]) =
     ''HTTP/1.0 200 OK'' @ CRLF @ ''Date: Mon, 07 Mar 2011 09:05:00 GMT'' @ CRLF @
     ''Content-Type: text/plain'' @ CRLF @ ''Connection: close'' @ CRLF @ CRLF"
  using send_headers_block[OF demo_worker_unsent demo_time_range, of "Some ''200 OK''"
      "[(''Content-Type'', ''text/plain''), (''DATE'', ''yesterday''),
        (''connection'', ''keep-alive'')]"]
  by (simp add: demo_worker_wire demo_time_def two_digits_def four_digits_def
      digit_chars_def HTTP_WDAY_def HTTP_MONTH_def str_lower_def ascii_uppercase_def
      ascii_lowercase_def py_str_def)

subsection \<open>Headers once, before the body\<close>

lemma write_chunks_state:
  "headers_sent (fst (write_chunks now status headers cs (self, n))) =
     (headers_sent self \<or> cs \<noteq> [])"
  "wire (fst (write_chunks now status headers cs (self, n))) =
     wire self @ (if \<not> headers_sent self \<and> cs \<noteq> [] then header_block now status headers
                  else []) @ concat cs"
  "snd (write_chunks now status headers cs (self, n)) = n + length (concat cs)"
proof -
  consider (sent) "headers_sent self" | (nil) "\<not> headers_sent self" "cs = []"
    | (first) "\<not> headers_sent self" "cs \<noteq> []" by blast
  then have "headers_sent (fst (write_chunks now status headers cs (self, n))) =
     (headers_sent self \<or> cs \<noteq> []) \<and>
     wire (fst (write_chunks now status headers cs (self, n))) =
     wire self @ (if \<not> headers_sent self \<and> cs \<noteq> [] then header_block now status headers
                  else []) @ concat cs \<and>
     snd (write_chunks now status headers cs (self, n)) = n + length (concat cs)"
  proof cases
    case sent
    then show ?thesis by (simp add: write_chunks_sent wire_def)
  next
    case nil
    then show ?thesis by simp
  next
    case first
    then show ?thesis by (simp add: write_chunks_unsent wire_def)
  qed
  then show "headers_sent (fst (write_chunks now status headers cs (self, n))) =
     (headers_sent self \<or> cs \<noteq> [])"
  "wire (fst (write_chunks now status headers cs (self, n))) =
     wire self @ (if \<not> headers_sent self \<and> cs \<noteq> [] then header_block now status headers
                  else []) @ concat cs"
  "snd (write_chunks now status headers cs (self, n)) = n + length (concat cs)"
    by simp_all
qed

lemma take_nonempty: "k \<le> length (xs @ [x]) \<Longrightarrow> (take k (xs @ [x]) \<noteq> []) = (0 < k)"
  by (cases k) simp_all

text \<open>
  Claim C6, as the code has it.  The states \<open>send_response\<close> passes through are those
  after each prefix of the chunk sequence: the data written through the write callable,
  the application's chunks, and the final empty chunk.  After \<open>k\<close> chunks the flag
  \<open>headers_sent\<close> is set exactly when it was set before or \<open>k > 0\<close>, so it goes from false
  to true once, at the first chunk, and is never reset; the wire then holds the header
  block once, followed by the chunks written so far, and no header block if the flag
  was already set.  When the application's iterable ends without raising,
  \<open>send_response\<close> returns the body length, the headers have been sent (also for an empty
  body, through the final empty chunk) and flushed to the socket before the body bytes,
  which are in the write buffer.  When the iterable raises, the driver stops with that
  exception and the final empty chunk is not reached: the header block is on the wire
  once if a chunk was written before, and not at all otherwise.
\<close>

theorem send_response_headers_once:
  "(\<forall>k \<le> length (data @ items chunks @ ['''']).
      headers_sent (fst (write_chunks now status headers
                           (take k (data @ items chunks @ [''''])) (self, 0))) =
        (headers_sent self \<or> 0 < k) \<and>
      wire (fst (write_chunks now status headers
                   (take k (data @ items chunks @ [''''])) (self, 0))) =
        wire self @
        (if \<not> headers_sent self \<and> 0 < k then header_block now status headers else []) @
        concat (take k (data @ items chunks @ ['''']))) \<and>
   (raises chunks = None \<longrightarrow>
      send_response now self status headers chunks data =
        (Inr (length (concat (data @ items chunks))),
         fst (write_chunks now status headers (data @ items chunks @ ['''']) (self, 0)),
         []) \<and>
      headers_sent (fst (snd (send_response now self status headers chunks data))) \<and>
      wire (fst (snd (send_response now self status headers chunks data))) =
        wire self @ (if \<not> headers_sent self then header_block now status headers else []) @
        concat (data @ items chunks) \<and>
      (\<not> headers_sent self \<longrightarrow>
         sent (socket (stream (fst (snd (send_response now self status headers chunks data))))) =
           wire self @ header_block now status headers \<and>
         write_buffer (stream (fst (snd (send_response now self status headers chunks data)))) =
           concat (data @ items chunks))) \<and>
   (\<forall>e. raises chunks = Some e \<longrightarrow>
      send_response now self status headers chunks data =
        (Inl e, fst (write_chunks now status headers (data @ items chunks) (self, 0)), []) \<and>
      headers_sent (fst (snd (send_response now self status headers chunks data))) =
        (headers_sent self \<or> data @ items chunks \<noteq> []) \<and>
      wire (fst (snd (send_response now self status headers chunks data))) =
        wire self @
        (if \<not> headers_sent self \<and> data @ items chunks \<noteq> []
         then header_block now status headers else []) @
        concat (data @ items chunks))"
proof (intro conjI allI impI)
  fix k assume k: "k \<le> length (data @ items chunks @ [''''])"
  have ne: "(take k (data @ items chunks @ ['''']) \<noteq> []) = (0 < k)"
    using take_nonempty[of k "data @ items chunks" "''''"] k by simp
  show "headers_sent (fst (write_chunks now status headers
                           (take k (data @ items chunks @ [''''])) (self, 0))) =
        (headers_sent self \<or> 0 < k)"
    unfolding write_chunks_state(1) ne ..
  show "wire (fst (write_chunks now status headers
                   (take k (data @ items chunks @ [''''])) (self, 0))) =
        wire self @
        (if \<not> headers_sent self \<and> 0 < k then header_block now status headers else []) @
        concat (take k (data @ items chunks @ ['''']))"
    unfolding write_chunks_state(2) ne ..
next
  assume r: "raises chunks = None"
  let ?cs = "data @ items chunks @ ['''']"
  have ne: "?cs \<noteq> []" by simp
  have sr: "send_response now self status headers chunks data =
        (Inr (snd (write_chunks now status headers ?cs (self, 0))),
         fst (write_chunks now status headers ?cs (self, 0)), [])"
    by (rule send_response_returns[OF r])
  show "send_response now self status headers chunks data =
        (Inr (length (concat (data @ items chunks))),
         fst (write_chunks now status headers ?cs (self, 0)), [])"
    unfolding sr write_chunks_state(3) by simp
  show "headers_sent (fst (snd (send_response now self status headers chunks data)))"
    unfolding sr using write_chunks_state(1)[of now status headers ?cs self 0] by simp
  show "wire (fst (snd (send_response now self status headers chunks data))) =
        wire self @ (if \<not> headers_sent self then header_block now status headers else []) @
        concat (data @ items chunks)"
    unfolding sr using write_chunks_state(2)[of now status headers ?cs self 0] by simp
  {
    assume u: "\<not> headers_sent self"
    show "sent (socket (stream (fst (snd (send_response now self status headers chunks data))))) =
           wire self @ header_block now status headers"
      unfolding sr by (simp add: write_chunks_unsent[OF u ne] wire_def)
    show "write_buffer (stream (fst (snd (send_response now self status headers chunks data)))) =
           concat (data @ items chunks)"
      unfolding sr by (simp add: write_chunks_unsent[OF u ne])
  }
next
  fix e assume "raises chunks = Some e"
  then have sr: "send_response now self status headers chunks data =
        (Inl e, fst (write_chunks now status headers (data @ items chunks) (self, 0)), [])"
    by (rule send_response_raises)
  show "send_response now self status headers chunks data =
        (Inl e, fst (write_chunks now status headers (data @ items chunks) (self, 0)), [])"
    by (rule sr)
  show "headers_sent (fst (snd (send_response now self status headers chunks data))) =
        (headers_sent self \<or> data @ items chunks \<noteq> [])"
    unfolding sr
    using write_chunks_state(1)[of now status headers "data @ items chunks" self 0] by simp
  show "wire (fst (snd (send_response now self status headers chunks data))) =
        wire self @
        (if \<not> headers_sent self \<and> data @ items chunks \<noteq> []
         then header_block now status headers else []) @
        concat (data @ items chunks)"
    unfolding sr
    using write_chunks_state(2)[of now status headers "data @ items chunks" self 0] by simp
qed

theorem send_response_headers_once_witness:
  "raises (pylist []) = None \<and>
   send_response demo_time demo_worker (Some ''200 OK'') [] (pylist []) [] =
     (Inr 0, fst (write_chunks demo_time (Some ''200 OK'') [] [''''] (demo_worker, 0)), []) \<and>
   headers_sent (fst (snd (send_response demo_time demo_worker (Some ''200 OK'') []
                             (pylist []) []))) \<and>
   sent (socket (stream (fst (snd (send_response demo_time demo_worker (Some ''200 OK'') []
                                     (pylist []) []))))) =
     header_block demo_time (Some ''200 OK'') [] \<and>
   write_buffer (stream (fst (snd (send_response demo_time demo_worker (Some ''200 OK'') []
                                     (pylist []) [])))) = []"
  using send_response_headers_once[of "[]" "pylist []" demo_time "Some ''200 OK''" "[]"
      demo_worker]
  by (auto simp: pylist_def demo_worker_unsent demo_worker_wire simp del: write_chunks.simps)

text \<open>
  Claim C6 as stated fails for an application whose iterable raises before it yields a
  chunk: \<open>send_response\<close> ends with the exception, nothing has been written, and the
  flag is still false, so this request has no header block at all.
\<close>

definition early_raiser :: iterable where
  "early_raiser = \<lparr>items = [], raises = Some (AppError ''boom''), has_close = False\<rparr>"

theorem send_response_early_raise_no_headers:
  "send_response demo_time demo_worker (Some ''200 OK'') [] early_raiser [] =
     (Inl (AppError ''boom''), demo_worker, []) \<and>
   wire (fst (snd (send_response demo_time demo_worker (Some ''200 OK'') [] early_raiser []))) =
     [] \<and>
   \<not> headers_sent
       (fst (snd (send_response demo_time demo_worker (Some ''200 OK'') [] early_raiser [])))"
  using send_response_raises[of early_raiser "AppError ''boom''" demo_time demo_worker
      "Some ''200 OK''" "[]" "[]"]
  by (simp add: early_raiser_def demo_worker_wire demo_worker_unsent)

subsection \<open>The cleanup hook\<close>

definition closing_iterable :: iterable where
  "closing_iterable = \<lparr>items = [''hi''], raises = None, has_close = True\<rparr>"

text \<open>
  Claim C3 on an iterable with one chunk and a \<open>close\<close> method.  The response is sent
  (length 2), and the list of objects closed by \<open>send_response\<close> is empty: the
  iterable's \<open>close()\<close> is not called.  The \<open>hasattr\<close> test looks at the loop variable,
  which by then is the one-element list holding the empty chunk.
\<close>

theorem send_response_close_hook_skipped:
  "has_close closing_iterable \<and> raises closing_iterable = None \<and>
   fst (send_response now self (Some ''200 OK'') [] closing_iterable []) = Inr 2 \<and>
   snd (snd (send_response now self (Some ''200 OK'') [] closing_iterable [])) = [] \<and>
   snd (snd (send_response now self (Some ''200 OK'') [] closing_iterable [])) \<noteq>
     [closing_iterable]"
  using send_response_closes_nothing[of now self "Some ''200 OK''" "[]" closing_iterable "[]"]
    send_response_returns[of closing_iterable now self "Some ''200 OK''" "[]" "[]"]
  by (simp add: closing_iterable_def write_chunks_state(3) del: write_chunks.simps)

subsection \<open>\<open>start_response\<close> with \<open>exc_info\<close>\<close>

text \<open>
  Claim C8.  With \<open>exc_info\<close> given, \<open>start_response\<close> raises that exception when the
  headers have been sent; otherwise it returns normally and records the new status and
  headers in place of the old ones.  Whenever it returns, with or without \<open>exc_info\<close>, the
  callable it returns appends the bytes passed to it to the list \<open>data\<close>, which
  \<open>send_response\<close> writes before the application's chunks.
\<close>

theorem start_response_exc_info:
  "(headers_sent self \<longrightarrow>
      start_response self response status response_headers (Some exc) = Inl exc) \<and>
   (\<not> headers_sent self \<longrightarrow>
      start_response self response status response_headers (Some exc) =
        Inr (DataAppend,
             response\<lparr>resp_status := Some status, resp_headers := response_headers\<rparr>)) \<and>
   (\<forall>snk response'.
      start_response self response status response_headers exc_info = Inr (snk, response') \<longrightarrow>
        resp_status response' = Some status \<and>
        resp_headers response' = response_headers \<and>
        resp_data response' = resp_data response \<and>
        resp_data (call_sink snk bytes response') = resp_data response @ [bytes])"
  by (cases exc_info) (auto simp: start_response_def)

theorem start_response_exc_info_witness:
  "headers_sent (demo_worker\<lparr>headers_sent := True\<rparr>) \<and>
   start_response (demo_worker\<lparr>headers_sent := True\<rparr>)
     \<lparr>resp_status = Some ''200 OK'', resp_headers = [], resp_data = []\<rparr>
     ''500 Oops'' [(''X-Error'', ''1'')] (Some (AppError ''boom'')) = Inl (AppError ''boom'') \<and>
   \<not> headers_sent demo_worker \<and>
   start_response demo_worker
     \<lparr>resp_status = Some ''200 OK'', resp_headers = [], resp_data = []\<rparr>
     ''500 Oops'' [(''X-Error'', ''1'')] (Some (AppError ''boom'')) =
     Inr (DataAppend, \<lparr>resp_status = Some ''500 Oops'', resp_headers = [(''X-Error'', ''1'')],
                       resp_data = []\<rparr>) \<and>
   resp_data (call_sink DataAppend ''body''
                \<lparr>resp_status = Some ''500 Oops'', resp_headers = [(''X-Error'', ''1'')],
                 resp_data = []\<rparr>) = [''body'']"
  using start_response_exc_info[of "demo_worker\<lparr>headers_sent := True\<rparr>"
      "\<lparr>resp_status = Some ''200 OK'', resp_headers = [], resp_data = []\<rparr>"
      "''500 Oops''" "[(''X-Error'', ''1'')]" "AppError ''boom''" "Some (AppError ''boom'')"
      "''body''"]
    start_response_exc_info[of demo_worker
      "\<lparr>resp_status = Some ''200 OK'', resp_headers = [], resp_data = []\<rparr>"
      "''500 Oops''" "[(''X-Error'', ''1'')]" "AppError ''boom''" "Some (AppError ''boom'')"
      "''body''"]
  by (simp add: demo_worker_unsent)

section \<open>Parsing the request\<close>

subsection \<open>\<open>split\<close>, \<open>replace\<close>, \<open>strip\<close>\<close>

text \<open>
  \<open>s.split(sep)\<close> and \<open>s.split(sep, maxsplit)\<close>.  Python raises on an empty separator;
  the server splits on CR LF and on a space only, and the first branch is never taken.
  \<open>str_replace\<close> is \<open>replace\<close> for two one-character strings, \<open>str_strip\<close> removes the
  ASCII whitespace at both ends.
\<close>

function str_split :: "string \<Rightarrow> string \<Rightarrow> string list" where
  "str_split s sep =
     (if sep = [] then []
      else (case find_idx sep s of
              None \<Rightarrow> [s]
            | Some i \<Rightarrow> take i s # str_split (drop (i + length sep) s) sep))"
  by pat_completeness auto
termination
proof (relation "measure (\<lambda>(s, sep). length s)")
  show "wf (measure (\<lambda>(s, sep). length s))" by simp
next
  fix s sep :: string and i
  assume "sep \<noteq> []" and i: "find_idx sep s = Some i"
  from \<open>sep \<noteq> []\<close> have "0 < length sep" by simp
  with find_idx_bound[OF i] have "length s - (i + length sep) < length s" by arith
  then show "((drop (i + length sep) s, sep), (s, sep)) \<in> measure (\<lambda>(s, sep). length s)"
    by simp
qed

declare str_split.simps [simp del]

primrec str_split_max :: "string \<Rightarrow> string \<Rightarrow> nat \<Rightarrow> string list" where
  "str_split_max s sep 0 = [s]"
| "str_split_max s sep (Suc n) =
     (case find_idx sep s of
        None \<Rightarrow> [s]
      | Some i \<Rightarrow> take i s # str_split_max (drop (i + length sep) s) sep n)"

definition str_replace :: "string \<Rightarrow> char \<Rightarrow> char \<Rightarrow> string" where
  "str_replace s old new = map (\<lambda>c. if c = old then new else c) s"

definition whitespace :: string where
  "whitespace = [CHR '' '', CHR 0x09, CHR 0x0A, CHR 0x0B, CHR 0x0C, CHR 0x0D]"

definition str_strip :: "string \<Rightarrow> string" where
  "str_strip s =
     rev (dropWhile (\<lambda>c. c \<in> set whitespace) (rev (dropWhile (\<lambda>c. c \<in> set whitespace) s)))"

subsection \<open>\<open>parse_request\<close>\<close>

text \<open>
  The peer address that \<open>accept\<close> returns: a \<open>(host, port)\<close> pair for TCP, a string for
  a local socket, or nothing.  \<open>remote_addr\<close> is the expression
  \<open>client_address and client_address[0] or ""\<close>.
\<close>

datatype address = InetAddress string nat | UnixAddress string | NoAddress

definition remote_addr :: "address \<Rightarrow> string" where
  "remote_addr client_address =
     (case client_address of
        InetAddress host port \<Rightarrow> host
      | UnixAddress path \<Rightarrow> (case path of [] \<Rightarrow> [] | c # cs \<Rightarrow> [c])
      | NoAddress \<Rightarrow> [])"

text \<open>The loop over \<open>lines[1:]\<close>, which stops at the first empty line.\<close>

fun parse_headers :: "string list \<Rightarrow> environ \<Rightarrow> environ" where
  "parse_headers [] env = env"
| "parse_headers (line # rest) env =
     (if line = [] then env
      else (let p = str_partition line '':'';
                key = str_upper (str_replace (fst p) (CHR ''-'') (CHR ''_''));
                val = str_strip (snd (snd p))
            in parse_headers rest (env(''HTTP_'' @ key \<mapsto> Str val))))"

definition parse_request ::
  "worker \<Rightarrow> address \<Rightarrow> (error + string \<times> environ) \<times> worker" where
  "parse_request self client_address =
     (case read_until (stream self) (CRLF @ CRLF) of
        (Inl e, stream') \<Rightarrow> (Inl e, self\<lparr>stream := stream'\<rparr>)
      | (Inr header_data, stream') \<Rightarrow>
          (case str_split header_data CRLF of
             [] \<Rightarrow> (Inl IndexError, self\<lparr>stream := stream'\<rparr>)
           | reqline # header_lines \<Rightarrow>
               (case str_split_max reqline '' '' 2 of
                  [method, path, protocol] \<Rightarrow>
                    (let env1 = (baseenv self)
                           (''REQUEST_METHOD'' \<mapsto> Str method,
                            ''SERVER_PROTOCOL'' \<mapsto> Str protocol,
                            ''REMOTE_ADDR'' \<mapsto> Str (remote_addr client_address));
                         q = str_partition path ''?'';
                         env2 = (if str_in ''?'' path
                                 then env1(''QUERY_STRING'' \<mapsto> Str (snd (snd q)))
                                 else env1);
                         path' = (if str_in ''?'' path then fst q else path);
                         env3 = env2(''PATH_INFO'' \<mapsto> Str (urlunquote path'),
                                     ''wsgi.input'' \<mapsto> InputStream);
                         env4 = parse_headers header_lines env3;
                         env5 = (case cfg_real_ip_header (config self) of
                                   None \<Rightarrow> env4
                                 | Some real_ip_header \<Rightarrow>
                                     (case env4 real_ip_header of
                                        None \<Rightarrow> env4
                                      | Some v \<Rightarrow> env4(''REMOTE_ADDR'' \<mapsto> v)))
                     in (Inr (reqline, env5), self\<lparr>stream := stream'\<rparr>))
                | _ \<Rightarrow> (Inl ValueError, self\<lparr>stream := stream'\<rparr>))))"

text \<open>The demo worker with a fresh stream on a connection delivering the given chunks.\<close>

definition request_worker :: "string list \<Rightarrow> worker" where
  "request_worker chunks =
     demo_worker\<lparr>stream := IOStream_init \<lparr>incoming = chunks, sent = [], conn_closed = False\<rparr>\<rparr>"

subsection \<open>Finding the end of the header block\<close>

lemma find_idx_char:
  "find_idx [c] s = (if c \<in> set s then Some (length (takeWhile (\<lambda>x. x \<noteq> c) s)) else None)"
  by (induction s) auto

lemma find_idx_char_append:
  "c \<notin> set p \<Longrightarrow> find_idx [c] (p @ c # rest) = Some (length p)"
  by (induction p) auto

lemma find_idx_skip:
  "c \<notin> set p \<Longrightarrow>
   find_idx (c # d) (p @ s) =
     (case find_idx (c # d) s of None \<Rightarrow> None | Some i \<Rightarrow> Some (length p + i))"
  by (induction p) (auto split: option.splits)

lemma CR_neq_LF: "CR \<noteq> LF" "LF \<noteq> CR"
  by (simp_all add: CR_def LF_def)

lemma find_idx_CRLF_line:
  "CR \<notin> set l \<Longrightarrow> find_idx CRLF (l @ CRLF @ rest) = Some (length l)"
  unfolding CRLF_def by (simp add: find_idx_skip)

definition crlf_lines :: "string list \<Rightarrow> string" where
  "crlf_lines ls = concat (map (\<lambda>l. l @ CRLF) ls)"

lemma crlf_lines_simps:
  "crlf_lines [] = []" "crlf_lines (l # ls) = l @ CRLF @ crlf_lines ls"
  by (simp_all add: crlf_lines_def)

lemma str_split_CRLF_lines:
  "\<forall>l\<in>set ls. CR \<notin> set l \<Longrightarrow>
   str_split (crlf_lines ls @ t) CRLF = ls @ str_split t CRLF"
proof (induction ls)
  case Nil
  show ?case by (simp add: crlf_lines_simps)
next
  case (Cons l ls)
  then have l: "CR \<notin> set l" and ih: "str_split (crlf_lines ls @ t) CRLF = ls @ str_split t CRLF"
    by simp_all
  have ne: "CRLF \<noteq> []" by (simp add: CRLF_def)
  have f: "find_idx CRLF (l @ CRLF @ crlf_lines ls @ t) = Some (length l)"
    by (rule find_idx_CRLF_line[OF l])
  have "str_split (l @ CRLF @ crlf_lines ls @ t) CRLF =
        take (length l) (l @ CRLF @ crlf_lines ls @ t) #
        str_split (drop (length l + length CRLF) (l @ CRLF @ crlf_lines ls @ t)) CRLF"
    by (subst str_split.simps) (simp add: f ne)
  also have "\<dots> = l # str_split (crlf_lines ls @ t) CRLF" by simp
  finally show ?case by (simp add: crlf_lines_simps ih)
qed

lemma str_split_CRLF_only: "str_split CRLF CRLF = [[], []]"
  by (simp add: str_split.simps CRLF_def)

lemma find_idx_header_end:
  assumes "ls \<noteq> []" "\<forall>l\<in>set ls. CR \<notin> set l \<and> l \<noteq> []"
  shows "find_idx (CRLF @ CRLF) (crlf_lines ls @ CRLF @ body) =
         Some (length (crlf_lines ls) - 2)"
  using assms
proof (induction ls rule: list_nonempty_induct)
  case (single l)
  then have l: "CR \<notin> set l" by simp
  show ?case
    using l unfolding CRLF_def crlf_lines_def
    by (simp add: find_idx_skip)
next
  case (cons l ls)
  then have l: "CR \<notin> set l" by simp
  from cons.hyps obtain l' ls' where ls: "ls = l' # ls'" by (cases ls) auto
  with cons.prems have l': "CR \<notin> set l'" "l' \<noteq> []" by simp_all
  then obtain x xs where x: "l' = x # xs" "x \<noteq> CR" by (cases l') auto
  from cons.IH cons.prems
  have ih: "find_idx (CRLF @ CRLF) (crlf_lines ls @ CRLF @ body) =
            Some (length (crlf_lines ls) - 2)" by simp
  have len: "2 \<le> length (crlf_lines ls)"
    unfolding ls by (simp add: crlf_lines_simps CRLF_def)
  have "find_idx (CRLF @ CRLF) (crlf_lines (l # ls) @ CRLF @ body) =
        (case find_idx (CRLF @ CRLF) (CRLF @ crlf_lines ls @ CRLF @ body) of
           None \<Rightarrow> None | Some i \<Rightarrow> Some (length l + i))"
    using find_idx_skip[OF l, of "[LF, CR, LF]" "CRLF @ crlf_lines ls @ CRLF @ body"]
    by (simp add: crlf_lines_simps CRLF_def)
  also have "find_idx (CRLF @ CRLF) (CRLF @ crlf_lines ls @ CRLF @ body) =
             map_option (\<lambda>i. Suc (Suc i)) (find_idx (CRLF @ CRLF) (crlf_lines ls @ CRLF @ body))"
    unfolding ls x(1) using x(2) CR_neq_LF
    by (simp add: crlf_lines_simps CRLF_def option.map_comp comp_def)
  finally show ?case
    using ih len by (simp add: crlf_lines_simps CRLF_def)
qed

subsection \<open>The pieces of a well-formed request\<close>

lemma read_until_found:
  assumes "find_idx d (available st) = Some (Suc i)"
  shows "\<exists>st'. read_until st d = (Inr (take (Suc i + length d) (available st)), st') \<and>
               available st' = drop (Suc i + length d) (available st) \<and>
               write_buffer st' = write_buffer st \<and>
               sent (socket st') = sent (socket st) \<and>
               conn_closed (socket st') = conn_closed (socket st)"
proof -
  let ?st1 = "read_until_loop st d"
  let ?buf = "read_buffer ?st1"
  let ?n = "Suc i + length d"
  have fb: "find_idx d ?buf = Some (Suc i)"
    using assms by (simp add: read_until_loop_find)
  then have "str_in d ?buf" by (simp add: str_in_def)
  with read_until_loop_available[of st d]
  have av1: "available ?st1 = available st" and pre: "prefix ?buf (available st)" by simp_all
  from find_idx_bound[OF fb] have len: "?n \<le> length ?buf" .
  from pre obtain t where t: "available st = ?buf @ t" by (auto simp: prefix_def)
  from read_until_loop_consumes[of st d]
  have same: "write_buffer ?st1 = write_buffer st" "sent (socket ?st1) = sent (socket st)"
    "conn_closed (socket ?st1) = conn_closed (socket st)" by blast+
  let ?st' = "?st1\<lparr>read_buffer := drop ?n ?buf\<rparr>"
  have r: "read_until st d = (Inr (take ?n ?buf), ?st')"
    using fb by (simp add: read_until_def str_find_def Let_def nat_add_distrib)
  have tk: "take ?n ?buf = take ?n (available st)" using len t by simp
  have "available ?st' = drop ?n ?buf @
          concat (takeWhile (\<lambda>chunk. chunk \<noteq> []) (incoming (socket ?st1)))"
    by (simp add: available_def)
  also have "\<dots> = drop ?n (available ?st1)" using len by (simp add: available_def)
  finally have dr: "available ?st' = drop ?n (available st)" using av1 by simp
  show ?thesis
    apply (rule exI[of _ ?st'])
    using r tk dr same by simp
qed

lemma str_partition_char:
  "c \<in> set s \<Longrightarrow>
   str_partition s [c] = (takeWhile (\<lambda>x. x \<noteq> c) s, [c], tl (dropWhile (\<lambda>x. x \<noteq> c) s))"
  by (simp add: str_partition_def find_idx_char dropWhile_eq_drop drop_Suc tl_drop
      takeWhile_eq_take[symmetric])

lemma str_in_char: "str_in [c] s = (c \<in> set s)"
  by (simp add: str_in_def find_idx_char)

lemma str_partition_header:
  "c \<notin> set name \<Longrightarrow> str_partition (name @ c # val) [c] = (name, [c], val)"
  by (simp add: str_partition_def find_idx_char_append)

lemma str_split_max_reqline:
  assumes "CHR '' '' \<notin> set method" "CHR '' '' \<notin> set target"
  shows "str_split_max (method @ '' '' @ target @ '' '' @ protocol) '' '' 2 =
         [method, target, protocol]"
  using assms by (simp add: numeral_2_eq_2 find_idx_char_append)

text \<open>The canonical form of a header name: \<open>-\<close> replaced by \<open>_\<close>, then uppercased.\<close>

definition canonical :: "string \<Rightarrow> string" where
  "canonical name = str_upper (str_replace name (CHR ''-'') (CHR ''_''))"

lemma parse_headers_Cons:
  "line \<noteq> [] \<Longrightarrow>
   parse_headers (line # rest) env =
   parse_headers rest
     (env(''HTTP_'' @ canonical (fst (str_partition line '':'')) \<mapsto>
          Str (str_strip (snd (snd (str_partition line '':''))))))"
  by (simp add: Let_def canonical_def)

lemma parse_headers_fold:
  assumes "\<forall>(name, val)\<in>set hdrs. CHR '':'' \<notin> set name"
  shows "parse_headers (map (\<lambda>(name, val). name @ '':'' @ val) hdrs @ [] # rest) env =
         fold (\<lambda>(name, val) e. e(''HTTP_'' @ canonical name \<mapsto> Str (str_strip val))) hdrs env"
  using assms
proof (induction hdrs arbitrary: env)
  case Nil
  show ?case by simp
next
  case (Cons h hdrs)
  let ?F = "\<lambda>(name, val). name @ '':'' @ val"
  let ?G = "\<lambda>(name, val) e. e(''HTTP_'' @ canonical name \<mapsto> Str (str_strip val))"
  obtain name val where h: "h = (name, val)" by (cases h)
  with Cons.prems have c: "CHR '':'' \<notin> set name"
    and r: "\<forall>(name, val)\<in>set hdrs. CHR '':'' \<notin> set name" by simp_all
  have ne: "name @ '':'' @ val \<noteq> []" by simp
  have sp: "str_partition (name @ '':'' @ val) '':'' = (name, '':'', val)"
    using str_partition_header[OF c, of val] by simp
  have "parse_headers (map ?F (h # hdrs) @ [] # rest) env =
        parse_headers ((name @ '':'' @ val) # (map ?F hdrs @ [] # rest)) env"
    by (simp add: h)
  also have "\<dots> = parse_headers (map ?F hdrs @ [] # rest)
                      (env(''HTTP_'' @ canonical name \<mapsto> Str (str_strip val)))"
    by (simp only: parse_headers_Cons[OF ne] sp fst_conv snd_conv)
  also have "\<dots> = fold ?G hdrs (env(''HTTP_'' @ canonical name \<mapsto> Str (str_strip val)))"
    by (rule Cons.IH[OF r])
  also have "\<dots> = fold ?G (h # hdrs) env"
    by (simp only: h fold_simps case_prod_conv)
  finally show ?case .
qed

text \<open>
  The bytes of a request with the given request-line tokens and headers, each header
  given as its raw name and the raw text after the colon; and what is asked of the
  parts: no space in method and target, no colon in a header name, no carriage return
  anywhere.
\<close>

definition request_text ::
  "string \<Rightarrow> string \<Rightarrow> string \<Rightarrow> (string \<times> string) list \<Rightarrow> string" where
  "request_text method target protocol hdrs =
     method @ '' '' @ target @ '' '' @ protocol @ CRLF @
     concat (map (\<lambda>(name, val). name @ '':'' @ val @ CRLF) hdrs) @ CRLF"

definition wellformed_request ::
  "string \<Rightarrow> string \<Rightarrow> string \<Rightarrow> (string \<times> string) list \<Rightarrow> bool" where
  "wellformed_request method target protocol hdrs =
     (CHR '' '' \<notin> set method \<and> CR \<notin> set method \<and>
      CHR '' '' \<notin> set target \<and> CR \<notin> set target \<and>
      CR \<notin> set protocol \<and>
      (\<forall>(name, val)\<in>set hdrs. CHR '':'' \<notin> set name \<and> CR \<notin> set name \<and> CR \<notin> set val))"

lemma request_text_lines:
  "request_text method target protocol hdrs =
   crlf_lines ((method @ '' '' @ target @ '' '' @ protocol) #
               map (\<lambda>(name, val). name @ '':'' @ val) hdrs) @ CRLF"
proof -
  have "concat (map (\<lambda>(name, val). name @ '':'' @ val @ CRLF) hdrs) =
        crlf_lines (map (\<lambda>(name, val). name @ '':'' @ val) hdrs)"
    by (induction hdrs) (auto simp: crlf_lines_def)
  then show ?thesis by (simp add: request_text_def crlf_lines_simps)
qed

text \<open>The environment that \<open>parse_request\<close> builds for such a request, in closed form.\<close>

lemma parse_request_wellformed:
  assumes wf: "wellformed_request method target protocol hdrs"
    and av: "available (stream self) = request_text method target protocol hdrs @ body"
  shows "\<exists>stream'.
     parse_request self client_address =
       (Inr (method @ '' '' @ target @ '' '' @ protocol,
             (let env1 = (baseenv self)
                           (''REQUEST_METHOD'' \<mapsto> Str method,
                            ''SERVER_PROTOCOL'' \<mapsto> Str protocol,
                            ''REMOTE_ADDR'' \<mapsto> Str (remote_addr client_address));
                  env2 = (if CHR ''?'' \<in> set target
                          then env1(''QUERY_STRING'' \<mapsto>
                                 Str (tl (dropWhile (\<lambda>c. c \<noteq> CHR ''?'') target)))
                          else env1);
                  env3 = env2(''PATH_INFO'' \<mapsto>
                                Str (urlunquote (takeWhile (\<lambda>c. c \<noteq> CHR ''?'') target)),
                              ''wsgi.input'' \<mapsto> InputStream);
                  env4 = fold (\<lambda>(name, val) e.
                                 e(''HTTP_'' @ canonical name \<mapsto> Str (str_strip val)))
                           hdrs env3
              in (case cfg_real_ip_header (config self) of
                    None \<Rightarrow> env4
                  | Some real_ip_header \<Rightarrow>
                      (case env4 real_ip_header of
                         None \<Rightarrow> env4
                       | Some v \<Rightarrow> env4(''REMOTE_ADDR'' \<mapsto> v))))),
        self\<lparr>stream := stream'\<rparr>) \<and>
     available stream' = body \<and>
     write_buffer stream' = write_buffer (stream self) \<and>
     sent (socket stream') = sent (socket (stream self)) \<and>
     conn_closed (socket stream') = conn_closed (socket (stream self))"
proof -
  let ?reqline = "method @ '' '' @ target @ '' '' @ protocol"
  let ?hl = "map (\<lambda>(name, val). name @ '':'' @ val) hdrs"
  let ?ls = "?reqline # ?hl"
  from wf have sp: "CHR '' '' \<notin> set method" "CHR '' '' \<notin> set target"
    and colon: "\<forall>(name, val)\<in>set hdrs. CHR '':'' \<notin> set name"
    by (auto simp: wellformed_request_def)
  have spCR: "CHR '' '' \<noteq> CR" by (simp add: CR_def)
  have colCR: "CHR '':'' \<noteq> CR" by (simp add: CR_def)
  from wf have cr_req: "CR \<notin> set ?reqline"
    using spCR by (auto simp: wellformed_request_def)
  from wf have cr_hl: "\<forall>l\<in>set ?hl. CR \<notin> set l \<and> l \<noteq> []"
    using colCR by (auto simp: wellformed_request_def)
  have lines: "\<forall>l\<in>set ?ls. CR \<notin> set l \<and> l \<noteq> []"
    using cr_req cr_hl by simp
  have lines': "\<forall>l\<in>set ?ls. CR \<notin> set l" using lines by blast
  have avl: "available (stream self) = crlf_lines ?ls @ CRLF @ body"
    using av by (simp add: request_text_lines)
  have len: "4 \<le> length (crlf_lines ?ls)"
    by (simp add: crlf_lines_simps CRLF_def)
  then obtain i where i: "length (crlf_lines ?ls) - 2 = Suc i"
    by (cases "length (crlf_lines ?ls) - 2") auto
  have "find_idx (CRLF @ CRLF) (available (stream self)) = Some (length (crlf_lines ?ls) - 2)"
    unfolding avl by (rule find_idx_header_end[OF _ lines]) simp
  then have fi: "find_idx (CRLF @ CRLF) (available (stream self)) = Some (Suc i)"
    using i by simp
  have n: "Suc i + length (CRLF @ CRLF) = length (crlf_lines ?ls @ CRLF)"
    using i len by (simp add: CRLF_def)
  from read_until_found[OF fi]
  obtain stream' where ru: "read_until (stream self) (CRLF @ CRLF) =
        (Inr (take (Suc i + length (CRLF @ CRLF)) (available (stream self))), stream')"
    and st: "available stream' = drop (Suc i + length (CRLF @ CRLF)) (available (stream self))"
      "write_buffer stream' = write_buffer (stream self)"
      "sent (socket stream') = sent (socket (stream self))"
      "conn_closed (socket stream') = conn_closed (socket (stream self))"
    by blast
  have hd: "take (Suc i + length (CRLF @ CRLF)) (available (stream self)) = crlf_lines ?ls @ CRLF"
    unfolding n avl by simp
  have bd: "available stream' = body"
    unfolding st(1) n avl by simp
  have split: "str_split (crlf_lines ?ls @ CRLF) CRLF = ?reqline # (?hl @ [] # [[]])"
    using str_split_CRLF_lines[OF lines', of CRLF] by (simp add: str_split_CRLF_only)
  have rq: "str_split_max ?reqline '' '' 2 = [method, target, protocol]"
    by (rule str_split_max_reqline[OF sp])
  have ph: "\<And>env. parse_headers (?hl @ [] # [[]]) env =
      fold (\<lambda>(name, val) e. e(''HTTP_'' @ canonical name \<mapsto> Str (str_strip val))) hdrs env"
    by (rule parse_headers_fold[OF colon])
  have q1: "str_in ''?'' target = (CHR ''?'' \<in> set target)" by (rule str_in_char)
  have q2: "CHR ''?'' \<in> set target \<Longrightarrow>
            str_partition target ''?'' =
              (takeWhile (\<lambda>x. x \<noteq> CHR ''?'') target, ''?'',
               tl (dropWhile (\<lambda>x. x \<noteq> CHR ''?'') target))"
    by (rule str_partition_char)
  have q3: "CHR ''?'' \<notin> set target \<Longrightarrow> takeWhile (\<lambda>x. x \<noteq> CHR ''?'') target = target"
    by (auto simp: takeWhile_eq_all_conv)
  have pr: "parse_request self client_address =
       (Inr (?reqline,
             (let env1 = (baseenv self)
                           (''REQUEST_METHOD'' \<mapsto> Str method,
                            ''SERVER_PROTOCOL'' \<mapsto> Str protocol,
                            ''REMOTE_ADDR'' \<mapsto> Str (remote_addr client_address));
                  env2 = (if CHR ''?'' \<in> set target
                          then env1(''QUERY_STRING'' \<mapsto>
                                 Str (tl (dropWhile (\<lambda>c. c \<noteq> CHR ''?'') target)))
                          else env1);
                  env3 = env2(''PATH_INFO'' \<mapsto>
                                Str (urlunquote (takeWhile (\<lambda>c. c \<noteq> CHR ''?'') target)),
                              ''wsgi.input'' \<mapsto> InputStream);
                  env4 = fold (\<lambda>(name, val) e.
                                 e(''HTTP_'' @ canonical name \<mapsto> Str (str_strip val)))
                           hdrs env3
              in (case cfg_real_ip_header (config self) of
                    None \<Rightarrow> env4
                  | Some real_ip_header \<Rightarrow>
                      (case env4 real_ip_header of
                         None \<Rightarrow> env4
                       | Some v \<Rightarrow> env4(''REMOTE_ADDR'' \<mapsto> v))))),
        self\<lparr>stream := stream'\<rparr>)"
  proof (cases "CHR ''?'' \<in> set target")
    case True
    show ?thesis
      by (simp only: parse_request_def ru hd split rq prod.case sum.case list.case ph q1
          q2[OF True] True if_True Let_def fst_conv snd_conv)
  next
    case False
    show ?thesis
      by (simp only: parse_request_def ru hd split rq prod.case sum.case list.case ph q1
          q3[OF False] False if_False Let_def fst_conv snd_conv)
  qed
  show ?thesis
    apply (rule exI[of _ stream'])
    using pr bd st(2-4) by simp
qed

lemma fold_http_lookup:
  "(fold (\<lambda>(name, val) e. e(''HTTP_'' @ canonical name \<mapsto> Str (str_strip val))) hdrs env)
     (''HTTP_'' @ key) =
   (case map_of (rev (map (\<lambda>(name, val). (canonical name, Str (str_strip val))) hdrs)) key of
      Some v \<Rightarrow> Some v | None \<Rightarrow> env (''HTTP_'' @ key))"
proof (induction hdrs rule: rev_induct)
  case Nil
  show ?case by simp
next
  case (snoc h hdrs)
  obtain name val where h: "h = (name, val)" by (cases h)
  show ?case unfolding h using snoc.IH by simp
qed

lemma fold_http_other:
  assumes "\<And>key. k \<noteq> ''HTTP_'' @ key"
  shows "(fold (\<lambda>(name, val) e. e(''HTTP_'' @ canonical name \<mapsto> Str (str_strip val))) hdrs env) k
         = env k"
proof (induction hdrs arbitrary: env)
  case Nil
  show ?case by simp
next
  case (Cons h hdrs)
  let ?G = "\<lambda>(name, val) e. e(''HTTP_'' @ canonical name \<mapsto> Str (str_strip val))"
  obtain name val where h: "h = (name, val)" by (cases h)
  have ne: "k \<noteq> ''HTTP_'' @ canonical name" by (rule assms)
  have "fold ?G (h # hdrs) env =
        fold ?G hdrs (env(''HTTP_'' @ canonical name \<mapsto> Str (str_strip val)))"
    by (simp only: h fold_simps case_prod_conv)
  then have "fold ?G (h # hdrs) env k =
             (env(''HTTP_'' @ canonical name \<mapsto> Str (str_strip val))) k"
    by (simp only: Cons.IH)
  also have "\<dots> = env k" using ne by (simp only: fun_upd_apply if_False)
  finally show ?case .
qed

lemma map_of_rev_distinct:
  assumes "distinct (map fst xs)" "(k, v) \<in> set xs"
  shows "map_of (rev xs) k = Some v"
proof (rule map_of_is_SomeI)
  show "distinct (map fst (rev xs))" using assms(1) by (simp add: rev_map[symmetric])
  show "(k, v) \<in> set (rev xs)" using assms(2) by simp
qed

subsection \<open>Percent-decoding as the specification words it\<close>

text \<open>
  The specification's account of decoding, to compare \<open>urlunquote\<close> with: reading from
  the left, each \<open>%\<close> followed by two hexadecimal digits, of either case, is replaced by
  the byte with that value; a \<open>%\<close> followed by anything else is emitted as it stands
  together with the (up to) two characters after it.
\<close>

definition is_hex :: "char \<Rightarrow> bool" where
  "is_hex c = (c \<in> set hexdigits_lower \<or> c \<in> set hexdigits_upper)"

definition hex_value :: "char \<Rightarrow> nat" where
  "hex_value c =
     (case find_idx [c] hexdigits_lower of
        Some i \<Rightarrow> i
      | None \<Rightarrow> (case find_idx [c] hexdigits_upper of Some i \<Rightarrow> i | None \<Rightarrow> 0))"

fun percent_decoded :: "string \<Rightarrow> string" where
  "percent_decoded (c # a # b # rest) =
     (if c = CHR ''%'' then
        (if is_hex a \<and> is_hex b
         then char_of (16 * hex_value a + hex_value b) # percent_decoded rest
         else c # a # b # percent_decoded rest)
      else c # percent_decoded (a # b # rest))"
| "percent_decoded [c, a] = (if c = CHR ''%'' then [c, a] else c # percent_decoded [a])"
| "percent_decoded [c] = [c]"
| "percent_decoded [] = []"

text \<open>
  An escape is of mixed case when its two characters are hexadecimal digits that are
  found neither both in \<open>0-9a-f\<close> nor both in \<open>0-9A-F\<close>.  \<open>single_case_escapes s\<close> holds
  when no escape read in \<open>s\<close> is of mixed case.
\<close>

definition mixed_case_hex :: "char \<Rightarrow> char \<Rightarrow> bool" where
  "mixed_case_hex a b =
     (is_hex a \<and> is_hex b \<and>
      \<not> (a \<in> set hexdigits_lower \<and> b \<in> set hexdigits_lower) \<and>
      \<not> (a \<in> set hexdigits_upper \<and> b \<in> set hexdigits_upper))"

fun single_case_escapes :: "string \<Rightarrow> bool" where
  "single_case_escapes (c # a # b # rest) =
     (if c = CHR ''%'' then \<not> mixed_case_hex a b \<and> single_case_escapes rest
      else single_case_escapes (a # b # rest))"
| "single_case_escapes [c, a] = True"
| "single_case_escapes [c] = True"
| "single_case_escapes [] = True"

lemma hex_value_lower:
  "\<forall>c\<in>set hexdigits_lower. hex_value c < 16 \<and> hexdigits_lower ! hex_value c = c"
  by (simp add: hexdigits_lower_def hex_value_def)

lemma hex_value_upper:
  "\<forall>c\<in>set hexdigits_upper. hex_value c < 16 \<and> hexdigits_upper ! hex_value c = c"
  by (simp add: hexdigits_lower_def hexdigits_upper_def hex_value_def)

lemma format_02x_of_digits:
  "y < 16 \<Longrightarrow> format_02x (16 * x + y) = [hexdigits_lower ! x, hexdigits_lower ! y]"
  "y < 16 \<Longrightarrow> format_02X (16 * x + y) = [hexdigits_upper ! x, hexdigits_upper ! y]"
  by (simp_all add: format_02x_def format_02X_def)

lemma charfromhex_lower_pair:
  assumes "a \<in> set hexdigits_lower" "b \<in> set hexdigits_lower"
  shows "charfromhex [a, b] = Some [char_of (16 * hex_value a + hex_value b)]"
proof -
  from assms hex_value_lower have a: "hex_value a < 16" "hexdigits_lower ! hex_value a = a"
    and b: "hex_value b < 16" "hexdigits_lower ! hex_value b = b" by blast+
  have lt: "16 * hex_value a + hex_value b < 256" using a(1) b(1) by simp
  have "format_02x (16 * hex_value a + hex_value b) = [a, b]"
    using format_02x_of_digits(1)[OF b(1), of "hex_value a"] a(2) b(2) by simp
  with charfromhex_format(1)[OF lt] show ?thesis by (simp add: chr_def)
qed

lemma charfromhex_upper_pair:
  assumes "a \<in> set hexdigits_upper" "b \<in> set hexdigits_upper"
  shows "charfromhex [a, b] = Some [char_of (16 * hex_value a + hex_value b)]"
proof -
  from assms hex_value_upper have a: "hex_value a < 16" "hexdigits_upper ! hex_value a = a"
    and b: "hex_value b < 16" "hexdigits_upper ! hex_value b = b" by blast+
  have lt: "16 * hex_value a + hex_value b < 256" using a(1) b(1) by simp
  have "format_02X (16 * hex_value a + hex_value b) = [a, b]"
    using format_02x_of_digits(2)[OF b(1), of "hex_value a"] a(2) b(2) by simp
  with charfromhex_format(2)[OF lt] show ?thesis by (simp add: chr_def)
qed

lemma escape_pair:
  assumes "\<not> mixed_case_hex a b"
  shows "dict_get charfromhex [a, b] (''%'' @ [a, b]) =
         (if is_hex a \<and> is_hex b then [char_of (16 * hex_value a + hex_value b)]
          else [CHR ''%'', a, b])"
proof (cases "is_hex a \<and> is_hex b")
  case True
  with assms consider "a \<in> set hexdigits_lower" "b \<in> set hexdigits_lower"
    | "a \<in> set hexdigits_upper" "b \<in> set hexdigits_upper"
    by (auto simp: mixed_case_hex_def)
  then show ?thesis
  proof cases
    case 1
    with True show ?thesis by (simp add: dict_get_def charfromhex_lower_pair)
  next
    case 2
    with True show ?thesis by (simp add: dict_get_def charfromhex_upper_pair)
  qed
next
  case False
  then have "charfromhex [a, b] = None"
    by (intro charfromhex_None) (auto simp: is_hex_def)
  with False show ?thesis by (simp add: dict_get_def)
qed

lemma escape_short:
  "length code < 2 \<Longrightarrow> dict_get charfromhex code (''%'' @ code) = CHR ''%'' # code"
  using charfromhex_None[of code] by (simp add: dict_get_def)

lemma percent_decoded_other:
  "c \<noteq> CHR ''%'' \<Longrightarrow> percent_decoded (c # cs) = c # percent_decoded cs"
proof (cases cs)
  case Nil
  then show ?thesis by simp
next
  case (Cons a as)
  assume "c \<noteq> CHR ''%''"
  then show ?thesis unfolding Cons by (cases as) simp_all
qed

lemma single_case_escapes_other:
  "c \<noteq> CHR ''%'' \<Longrightarrow> single_case_escapes (c # cs) = single_case_escapes cs"
proof (cases cs)
  case Nil
  then show ?thesis by simp
next
  case (Cons a as)
  assume "c \<noteq> CHR ''%''"
  then show ?thesis unfolding Cons by (cases as) simp_all
qed

lemma percent_decoded_append:
  "CHR ''%'' \<notin> set p \<Longrightarrow> percent_decoded (p @ s) = p @ percent_decoded s"
proof (induction p)
  case Nil
  show ?case by simp
next
  case (Cons a p)
  then have a: "a \<noteq> CHR ''%''" and ih: "percent_decoded (p @ s) = p @ percent_decoded s"
    by auto
  have "percent_decoded ((a # p) @ s) = a # percent_decoded (p @ s)"
    using percent_decoded_other[OF a, of "p @ s"] by simp
  then show ?case using ih by simp
qed

lemma percent_decoded_plain: "CHR ''%'' \<notin> set s \<Longrightarrow> percent_decoded s = s"
  using percent_decoded_append[of s "[]"] by simp

lemma single_case_escapes_append:
  "CHR ''%'' \<notin> set p \<Longrightarrow> single_case_escapes (p @ s) = single_case_escapes s"
proof (induction p)
  case Nil
  show ?case by simp
next
  case (Cons a p)
  then have a: "a \<noteq> CHR ''%''"
    and ih: "single_case_escapes (p @ s) = single_case_escapes s" by auto
  have "single_case_escapes ((a # p) @ s) = single_case_escapes (p @ s)"
    using single_case_escapes_other[OF a, of "p @ s"] by simp
  then show ?case using ih by simp
qed

lemma urlunquote_loop_plain:
  "CHR ''%'' \<notin> set q \<Longrightarrow> urlunquote_loop u q = u @ q"
  by (subst urlunquote_loop.simps) (simp add: str_in_char)

lemma urlunquote_loop_step:
  assumes "CHR ''%'' \<in> set q"
  shows "urlunquote_loop u q =
         urlunquote_loop
           (u @ takeWhile (\<lambda>x. x \<noteq> CHR ''%'') q @
            dict_get charfromhex (take 2 (tl (dropWhile (\<lambda>x. x \<noteq> CHR ''%'') q)))
              (''%'' @ take 2 (tl (dropWhile (\<lambda>x. x \<noteq> CHR ''%'') q))))
           (drop 2 (tl (dropWhile (\<lambda>x. x \<noteq> CHR ''%'') q)))"
  by (subst urlunquote_loop.simps)
     (simp add: str_in_char assms str_partition_char[OF assms] Let_def)

lemma split_at_percent:
  assumes "CHR ''%'' \<in> set q"
  shows "q = takeWhile (\<lambda>x. x \<noteq> CHR ''%'') q @ CHR ''%'' # tl (dropWhile (\<lambda>x. x \<noteq> CHR ''%'') q)"
proof -
  from assms have "dropWhile (\<lambda>x. x \<noteq> CHR ''%'') q \<noteq> []" by (simp add: dropWhile_eq_Nil_conv)
  moreover have "hd (dropWhile (\<lambda>x. x \<noteq> CHR ''%'') q) = CHR ''%''"
    using assms hd_dropWhile[of "\<lambda>x. x \<noteq> CHR ''%''" q] calculation by auto
  ultimately have "dropWhile (\<lambda>x. x \<noteq> CHR ''%'') q =
                   CHR ''%'' # tl (dropWhile (\<lambda>x. x \<noteq> CHR ''%'') q)"
    by (cases "dropWhile (\<lambda>x. x \<noteq> CHR ''%'') q") auto
  then show ?thesis using takeWhile_dropWhile_id[of "\<lambda>x. x \<noteq> CHR ''%''" q] by simp
qed

lemma urlunquote_loop_decoded:
  "single_case_escapes q \<Longrightarrow> urlunquote_loop u q = u @ percent_decoded q"
proof (induction "length q" arbitrary: u q rule: less_induct)
  case less
  show ?case
  proof (cases "CHR ''%'' \<in> set q")
    case False
    then show ?thesis by (simp add: urlunquote_loop_plain percent_decoded_plain)
  next
    case True
    let ?before = "takeWhile (\<lambda>x. x \<noteq> CHR ''%'') q"
    let ?after = "tl (dropWhile (\<lambda>x. x \<noteq> CHR ''%'') q)"
    have q: "q = ?before @ CHR ''%'' # ?after" by (rule split_at_percent[OF True])
    have nb: "CHR ''%'' \<notin> set ?before" by (auto dest: set_takeWhileD)
    have pd: "percent_decoded q = ?before @ percent_decoded (CHR ''%'' # ?after)"
      by (subst q) (rule percent_decoded_append[OF nb])
    have "single_case_escapes (?before @ CHR ''%'' # ?after)" using less.prems q by simp
    then have sc: "single_case_escapes (CHR ''%'' # ?after)"
      by (simp only: single_case_escapes_append[OF nb])
    have shorter: "length (drop 2 ?after) < length q"
      by (subst (2) q) simp
    note step = urlunquote_loop_step[OF True, of u]
    show ?thesis
    proof (cases ?after)
      case Nil
      have "urlunquote_loop u q = u @ ?before @ ''%''"
        unfolding step Nil
        by (simp add: escape_short[of "[]", simplified] urlunquote_loop_plain)
      then show ?thesis unfolding pd Nil by simp
    next
      case (Cons a as)
      show ?thesis
      proof (cases as)
        case Nil
        have "urlunquote_loop u q = u @ ?before @ [CHR ''%'', a]"
          unfolding step Cons Nil
          by (simp add: escape_short[of "[a]", simplified] urlunquote_loop_plain)
        then show ?thesis unfolding pd Cons Nil by simp
      next
        case (Cons b rest)
        note after = \<open>?after = a # as\<close>[unfolded Cons]
        from sc have nm: "\<not> mixed_case_hex a b" and scr: "single_case_escapes rest"
          unfolding after by simp_all
        have len: "length rest < length q" using shorter unfolding after by simp
        have "urlunquote_loop u q =
              urlunquote_loop (u @ ?before @ dict_get charfromhex [a, b] (''%'' @ [a, b])) rest"
          unfolding step after by simp
        also have "\<dots> = (u @ ?before @ dict_get charfromhex [a, b] (''%'' @ [a, b])) @
                          percent_decoded rest"
          by (rule less.hyps[OF len scr])
        finally show ?thesis
          unfolding pd after escape_pair[OF nm] by simp
      qed
    qed
  qed
qed

lemma urlunquote_decoded: "single_case_escapes s \<Longrightarrow> urlunquote s = percent_decoded s"
  by (simp add: urlunquote_def urlunquote_loop_decoded)

text \<open>A path outside that domain: the two decodings differ on it.\<close>

lemma mixed_case_path:
  "\<not> single_case_escapes ''/%aB'' \<and> urlunquote ''/%aB'' = ''/%aB'' \<and>
   percent_decoded ''/%aB'' = [CHR ''/'', CHR 0xAB]"
  using charfromhex_aB
  by (simp add: mixed_case_hex_def is_hex_def hexdigits_lower_def hexdigits_upper_def
      hex_value_def char_of_171 urlunquote_def urlunquote_loop.simps str_in_def
      str_partition_def dict_get_def)

text \<open>
  The entries of the environment for a well-formed request, with \<open>PATH_INFO\<close> as the
  code computes it.
\<close>

lemma parse_request_entries:
  assumes wf: "wellformed_request method target protocol hdrs"
    and av: "available (stream self) = request_text method target protocol hdrs @ body"
  shows "\<exists>env self'.
     parse_request self client_address =
       (Inr (method @ '' '' @ target @ '' '' @ protocol, env), self') \<and>
     env ''REQUEST_METHOD'' = Some (Str method) \<and>
     env ''SERVER_PROTOCOL'' = Some (Str protocol) \<and>
     env ''PATH_INFO'' = Some (Str (urlunquote (takeWhile (\<lambda>c. c \<noteq> CHR ''?'') target))) \<and>
     env ''QUERY_STRING'' =
       (if CHR ''?'' \<in> set target
        then Some (Str (tl (dropWhile (\<lambda>c. c \<noteq> CHR ''?'') target)))
        else baseenv self ''QUERY_STRING'') \<and>
     (\<forall>key. env (''HTTP_'' @ key) =
        (case map_of (rev (map (\<lambda>(name, val). (canonical name, Str (str_strip val))) hdrs))
                key of
           Some v \<Rightarrow> Some v
         | None \<Rightarrow> baseenv self (''HTTP_'' @ key))) \<and>
     (distinct (map (\<lambda>(name, val). canonical name) hdrs) \<longrightarrow>
        (\<forall>(name, val)\<in>set hdrs.
           env (''HTTP_'' @ canonical name) = Some (Str (str_strip val)))) \<and>
     available (stream self') = body"
proof -
  let ?env1 = "(baseenv self)
                 (''REQUEST_METHOD'' \<mapsto> Str method,
                  ''SERVER_PROTOCOL'' \<mapsto> Str protocol,
                  ''REMOTE_ADDR'' \<mapsto> Str (remote_addr client_address))"
  let ?env2 = "if CHR ''?'' \<in> set target
               then ?env1(''QUERY_STRING'' \<mapsto>
                      Str (tl (dropWhile (\<lambda>c. c \<noteq> CHR ''?'') target)))
               else ?env1"
  let ?env3 = "?env2(''PATH_INFO'' \<mapsto>
                       Str (urlunquote (takeWhile (\<lambda>c. c \<noteq> CHR ''?'') target)),
                     ''wsgi.input'' \<mapsto> InputStream)"
  let ?env4 = "fold (\<lambda>(name, val) e.
                       e(''HTTP_'' @ canonical name \<mapsto> Str (str_strip val))) hdrs ?env3"
  let ?env5 = "case cfg_real_ip_header (config self) of
                 None \<Rightarrow> ?env4
               | Some real_ip_header \<Rightarrow>
                   (case ?env4 real_ip_header of
                      None \<Rightarrow> ?env4
                    | Some v \<Rightarrow> ?env4(''REMOTE_ADDR'' \<mapsto> v))"
  from parse_request_wellformed[OF wf av, of client_address]
  obtain stream' where pr: "parse_request self client_address =
      (Inr (method @ '' '' @ target @ '' '' @ protocol, ?env5), self\<lparr>stream := stream'\<rparr>)"
    and bd: "available stream' = body"
    unfolding Let_def by blast
  have e5: "?env5 k = ?env4 k" if "k \<noteq> ''REMOTE_ADDR''" for k
    using that by (simp split: option.splits)
  have m: "?env5 ''REQUEST_METHOD'' = Some (Str method)"
    by (subst e5, simp, subst fold_http_other, simp_all)
  have p: "?env5 ''SERVER_PROTOCOL'' = Some (Str protocol)"
    by (subst e5, simp, subst fold_http_other, simp_all)
  have pi: "?env5 ''PATH_INFO'' =
            Some (Str (urlunquote (takeWhile (\<lambda>c. c \<noteq> CHR ''?'') target)))"
    by (subst e5, simp, subst fold_http_other, simp_all)
  have q: "?env5 ''QUERY_STRING'' =
       (if CHR ''?'' \<in> set target
        then Some (Str (tl (dropWhile (\<lambda>c. c \<noteq> CHR ''?'') target)))
        else baseenv self ''QUERY_STRING'')"
    by (subst e5, simp, subst fold_http_other, simp_all)
  have h: "?env5 (''HTTP_'' @ key) =
        (case map_of (rev (map (\<lambda>(name, val). (canonical name, Str (str_strip val))) hdrs))
                key of
           Some v \<Rightarrow> Some v
         | None \<Rightarrow> baseenv self (''HTTP_'' @ key))" for key
    by (subst e5, simp, subst fold_http_lookup, simp split: option.splits)
  have d: "?env5 (''HTTP_'' @ canonical name) = Some (Str (str_strip val))"
    if dist: "distinct (map (\<lambda>(name, val). canonical name) hdrs)"
      and mem: "(name, val) \<in> set hdrs" for name val
  proof -
    let ?xs = "map (\<lambda>(name, val). (canonical name, Str (str_strip val))) hdrs"
    have eq: "map fst ?xs = map (\<lambda>(name, val). canonical name) hdrs"
      by (simp add: case_prod_unfold comp_def)
    have "distinct (map fst ?xs)" unfolding eq by (rule dist)
    moreover have "(canonical name, Str (str_strip val)) \<in> set ?xs"
      using mem by force
    ultimately have "map_of (rev ?xs) (canonical name) = Some (Str (str_strip val))"
      by (rule map_of_rev_distinct)
    then show ?thesis unfolding h by simp
  qed
  show ?thesis
  proof (rule exI[of _ ?env5], rule exI[of _ "self\<lparr>stream := stream'\<rparr>"], intro conjI)
    show "parse_request self client_address =
       (Inr (method @ '' '' @ target @ '' '' @ protocol, ?env5), self\<lparr>stream := stream'\<rparr>)"
      by (rule pr)
    show "?env5 ''REQUEST_METHOD'' = Some (Str method)" by (rule m)
    show "?env5 ''SERVER_PROTOCOL'' = Some (Str protocol)" by (rule p)
    show "?env5 ''PATH_INFO'' =
            Some (Str (urlunquote (takeWhile (\<lambda>c. c \<noteq> CHR ''?'') target)))" by (rule pi)
    show "?env5 ''QUERY_STRING'' =
       (if CHR ''?'' \<in> set target
        then Some (Str (tl (dropWhile (\<lambda>c. c \<noteq> CHR ''?'') target)))
        else baseenv self ''QUERY_STRING'')" by (rule q)
    show "\<forall>key. ?env5 (''HTTP_'' @ key) =
        (case map_of (rev (map (\<lambda>(name, val). (canonical name, Str (str_strip val))) hdrs))
                key of
           Some v \<Rightarrow> Some v
         | None \<Rightarrow> baseenv self (''HTTP_'' @ key))" using h by blast
    show "distinct (map (\<lambda>(name, val). canonical name) hdrs) \<longrightarrow>
        (\<forall>(name, val)\<in>set hdrs.
           ?env5 (''HTTP_'' @ canonical name) = Some (Str (str_strip val)))"
      using d by blast
    show "available (stream (self\<lparr>stream := stream'\<rparr>)) = body" using bd by simp
  qed
qed

text \<open>
  Claim C5, as the code has it.  For a well-formed request, arriving in any chunking
  and followed by any body, whose path has no escape of mixed case, \<open>parse_request\<close>
  returns the request line and an environment in which \<open>REQUEST_METHOD\<close> is the method
  as sent, \<open>SERVER_PROTOCOL\<close> the protocol, \<open>PATH_INFO\<close> the percent-decoded target up
  to the first \<open>?\<close>, and \<open>QUERY_STRING\<close> the undecoded text after that \<open>?\<close>; without a
  \<open>?\<close> the parser does not touch \<open>QUERY_STRING\<close>, which is then whatever the base
  environment holds.  The entry \<open>HTTP_<NAME>\<close> holds the trimmed value of the last header
  whose canonical name is \<open>NAME\<close> (and the base environment's entry if there is no such
  header); when the canonical names of the headers are distinct there is one entry per
  header, with that header's trimmed value.  The body stays in the stream.
\<close>

theorem parse_request_environment:
  assumes wf: "wellformed_request method target protocol hdrs"
    and sc: "single_case_escapes (takeWhile (\<lambda>c. c \<noteq> CHR ''?'') target)"
    and av: "available (stream self) = request_text method target protocol hdrs @ body"
  shows "\<exists>env self'.
     parse_request self client_address =
       (Inr (method @ '' '' @ target @ '' '' @ protocol, env), self') \<and>
     env ''REQUEST_METHOD'' = Some (Str method) \<and>
     env ''SERVER_PROTOCOL'' = Some (Str protocol) \<and>
     env ''PATH_INFO'' = Some (Str (percent_decoded (takeWhile (\<lambda>c. c \<noteq> CHR ''?'') target))) \<and>
     env ''QUERY_STRING'' =
       (if CHR ''?'' \<in> set target
        then Some (Str (tl (dropWhile (\<lambda>c. c \<noteq> CHR ''?'') target)))
        else baseenv self ''QUERY_STRING'') \<and>
     (\<forall>key. env (''HTTP_'' @ key) =
        (case map_of (rev (map (\<lambda>(name, val). (canonical name, Str (str_strip val))) hdrs))
                key of
           Some v \<Rightarrow> Some v
         | None \<Rightarrow> baseenv self (''HTTP_'' @ key))) \<and>
     (distinct (map (\<lambda>(name, val). canonical name) hdrs) \<longrightarrow>
        (\<forall>(name, val)\<in>set hdrs.
           env (''HTTP_'' @ canonical name) = Some (Str (str_strip val)))) \<and>
     available (stream self') = body"
  using parse_request_entries[OF wf av, of client_address]
  by (simp only: urlunquote_decoded[OF sc])

subsection \<open>Two requests\<close>

lemma char_of_32: "char_of (32::nat) = CHR '' ''"
  by (simp add: char_of_def bit_0)

lemma charfromhex_20: "charfromhex ''20'' = Some '' ''"
proof -
  have "format_02x 32 = ''20''" by (simp add: format_02x_def hexdigits_lower_def)
  with charfromhex_format(1)[of 32] show ?thesis by (simp add: chr_def char_of_32)
qed

lemma urlunquote_percent_path: "urlunquote ''/a%20b%2Fc'' = ''/a b/c''"
  using charfromhex_20 charfromhex_2f
  by (simp add: urlunquote_def urlunquote_loop.simps str_in_def str_partition_def dict_get_def)

definition percent_request_chunks :: "string list" where
  "percent_request_chunks =
     [''GET /a%20b%2Fc?x=%20 HT'', ''TP/1.0'' @ CRLF @ ''Host: x'' @ [CR], [LF] @ CRLF]"

lemma percent_request_wellformed:
  "wellformed_request ''GET'' ''/a%20b%2Fc?x=%20'' ''HTTP/1.0'' [(''Host'', '' x'')]"
  by (simp add: wellformed_request_def CR_def)

lemma percent_request_single_case:
  "single_case_escapes (takeWhile (\<lambda>c. c \<noteq> CHR ''?'') ''/a%20b%2Fc?x=%20'')"
  by (simp add: mixed_case_hex_def is_hex_def hexdigits_lower_def hexdigits_upper_def)

lemma percent_request_available:
  "available (stream (request_worker percent_request_chunks)) =
   request_text ''GET'' ''/a%20b%2Fc?x=%20'' ''HTTP/1.0'' [(''Host'', '' x'')] @ []"
  by (simp add: available_def request_worker_def percent_request_chunks_def IOStream_init_def
      request_text_def CRLF_def)

theorem parse_request_environment_witness:
  "wellformed_request ''GET'' ''/a%20b%2Fc?x=%20'' ''HTTP/1.0'' [(''Host'', '' x'')] \<and>
   single_case_escapes (takeWhile (\<lambda>c. c \<noteq> CHR ''?'') ''/a%20b%2Fc?x=%20'') \<and>
   (\<exists>env self'.
      parse_request (request_worker percent_request_chunks) (InetAddress ''10.0.0.1'' 4711) =
        (Inr (''GET /a%20b%2Fc?x=%20 HTTP/1.0'', env), self') \<and>
      env ''REQUEST_METHOD'' = Some (Str ''GET'') \<and>
      env ''SERVER_PROTOCOL'' = Some (Str ''HTTP/1.0'') \<and>
      env ''PATH_INFO'' = Some (Str ''/a b/c'') \<and>
      env ''QUERY_STRING'' = Some (Str ''x=%20'') \<and>
      env ''HTTP_HOST'' = Some (Str ''x''))"
proof -
  from parse_request_environment[OF percent_request_wellformed percent_request_single_case
      percent_request_available, of "InetAddress ''10.0.0.1'' 4711"]
  obtain env self' where
    pr: "parse_request (request_worker percent_request_chunks) (InetAddress ''10.0.0.1'' 4711) =
        (Inr (''GET'' @ '' '' @ ''/a%20b%2Fc?x=%20'' @ '' '' @ ''HTTP/1.0'', env), self')"
    and m: "env ''REQUEST_METHOD'' = Some (Str ''GET'')"
    and p: "env ''SERVER_PROTOCOL'' = Some (Str ''HTTP/1.0'')"
    and pi: "env ''PATH_INFO'' =
             Some (Str (percent_decoded
                          (takeWhile (\<lambda>c. c \<noteq> CHR ''?'') ''/a%20b%2Fc?x=%20'')))"
    and q: "env ''QUERY_STRING'' =
       (if CHR ''?'' \<in> set ''/a%20b%2Fc?x=%20''
        then Some (Str (tl (dropWhile (\<lambda>c. c \<noteq> CHR ''?'') ''/a%20b%2Fc?x=%20'')))
        else baseenv (request_worker percent_request_chunks) ''QUERY_STRING'')"
    and h: "distinct (map (\<lambda>(name, val). canonical name) [(''Host'', '' x'')]) \<longrightarrow>
        (\<forall>(name, val)\<in>set [(''Host'', '' x'')].
           env (''HTTP_'' @ canonical name) = Some (Str (str_strip val)))"
    by blast
  have c: "canonical ''Host'' = ''HOST''"
    by (simp add: canonical_def str_upper_def str_replace_def ascii_lowercase_def
        ascii_uppercase_def)
  have s: "str_strip '' x'' = ''x''"
    by (simp add: str_strip_def whitespace_def)
  from h c s have hh: "env ''HTTP_HOST'' = Some (Str ''x'')" by simp
  have "percent_decoded (takeWhile (\<lambda>c. c \<noteq> CHR ''?'') ''/a%20b%2Fc?x=%20'') =
        urlunquote (takeWhile (\<lambda>c. c \<noteq> CHR ''?'') ''/a%20b%2Fc?x=%20'')"
    by (rule urlunquote_decoded[OF percent_request_single_case, symmetric])
  also have "\<dots> = ''/a b/c''" by (simp add: urlunquote_percent_path)
  finally have pi': "env ''PATH_INFO'' = Some (Str ''/a b/c'')"
    using pi by simp
  from q have q': "env ''QUERY_STRING'' = Some (Str ''x=%20'')" by simp
  from pr have pr': "parse_request (request_worker percent_request_chunks)
        (InetAddress ''10.0.0.1'' 4711) = (Inr (''GET /a%20b%2Fc?x=%20 HTTP/1.0'', env), self')"
    by simp
  from pr' m p pi' q' hh percent_request_wellformed percent_request_single_case
  show ?thesis by blast
qed

text \<open>
  Claim C5 as stated fails in two ways.  When a header name is repeated, the entry
  holds the value of the last of them, so the first header \<open>X-A: 1\<close> has no entry with
  its own value; and when the base environment has a \<open>QUERY_STRING\<close>, the entry is
  present although the target has no \<open>?\<close>.
\<close>

definition repeated_header_request :: string where
  "repeated_header_request =
     ''GET / HTTP/1.0'' @ CRLF @ ''X-A: 1'' @ CRLF @ ''X-A: 2'' @ CRLF @ CRLF"

theorem parse_request_repeated_header:
  "wellformed_request ''GET'' ''/'' ''HTTP/1.0'' [(''X-A'', '' 1''), (''X-A'', '' 2'')] \<and>
   available (stream (request_worker [repeated_header_request])) =
     request_text ''GET'' ''/'' ''HTTP/1.0'' [(''X-A'', '' 1''), (''X-A'', '' 2'')] \<and>
   (case fst (parse_request (request_worker [repeated_header_request]) NoAddress) of
      Inl e \<Rightarrow> None
    | Inr (reqline, env) \<Rightarrow> env ''HTTP_X_A'') = Some (Str ''2'') \<and>
   str_strip '' 1'' = ''1'' \<and>
   CHR ''?'' \<notin> set ''/'' \<and>
   (case fst (parse_request
               ((request_worker [''GET / HTTP/1.0'' @ CRLF @ CRLF])
                  \<lparr>baseenv := [''QUERY_STRING'' \<mapsto> Str ''stale'']\<rparr>) NoAddress) of
      Inl e \<Rightarrow> None
    | Inr (reqline, env) \<Rightarrow> env ''QUERY_STRING'') = Some (Str ''stale'')"
  by (simp add: wellformed_request_def request_text_def available_def
      repeated_header_request_def parse_request_def request_worker_def demo_worker_def
      IOStream_init_def read_until_def read_until_loop.simps recv_def str_in_def str_find_def
      str_split.simps numeral_2_eq_2 CRLF_def CR_def LF_def str_partition_def str_upper_def
      str_replace_def str_strip_def whitespace_def ascii_lowercase_def ascii_uppercase_def
      urlunquote_def urlunquote_loop.simps)

section \<open>The worker's loop\<close>

subsection \<open>\<open>handle_request\<close>\<close>

text \<open>
  \<open>truthy\<close> is the test \<open>if self.access_log\<close>.  \<open>handle_request\<close> returns the exception
  that escapes it, if any, with the worker.  The slice \<open>status[:3]\<close> for the access log
  raises a \<open>TypeError\<close> when the application never called \<open>start_response\<close>.
\<close>

definition truthy :: "logfile option \<Rightarrow> bool" where
  "truthy x = (case x of None \<Rightarrow> False | Some FileObject \<Rightarrow> True
               | Some (Filename name) \<Rightarrow> name \<noteq> [])"

definition handle_request ::
  "struct_time \<Rightarrow> worker \<Rightarrow> conn \<Rightarrow> address \<Rightarrow> error option \<times> worker" where
  "handle_request now self connection address =
     (let self1 = self\<lparr>stream := IOStream_init connection, headers_sent := False\<rparr>
      in case parse_request self1 address of
           (Inl e, self2) \<Rightarrow> (Some e, self2)
         | (Inr (reqline, env), self2) \<Rightarrow>
             (case execute_request now self2 env of
                (Inl e, self3, closed) \<Rightarrow> (Some e, self3)
              | (Inr (status, n), self3, closed) \<Rightarrow>
                  (let self4 = self3\<lparr>stream := close (stream self3)\<rparr>
                   in if truthy (access_log self4) then
                        (case status of
                           None \<Rightarrow> (Some TypeError, self4)
                         | Some st \<Rightarrow>
                             (None,
                              self4\<lparr>request_log := request_log self4 @
                                 [(dict_get env ''REMOTE_ADDR'' (Str ''-''), reqline,
                                   take 3 st, n)]\<rparr>))
                      else (None, self4))))"

subsection \<open>\<open>run\<close>\<close>

text \<open>
  What the operating system does is the input of the loop, one event per round: the
  outcome of \<open>select\<close> (an error, the return with or without the listening socket among
  the ready ones, or a signal arriving while the worker waits), the outcome of \<open>accept\<close>
  if the round gets that far, and the time of the request.  The local variable \<open>socks\<close>
  is unbound until \<open>select\<close> first returns.  The process ends by \<open>sys.exit\<close> or by an
  exception that nothing catches.
\<close>

datatype signal = SIGQUIT | SIGINT | SIGTERM

datatype select_result = SelectError errno | SelectReturns bool | SelectSignal signal

datatype accept_result = AcceptError errno | Accepted conn address

record event =
  select_result :: select_result
  accept_result :: accept_result
  gmtime :: struct_time

datatype exit = SysExit nat | Uncaught error

datatype step = Continue worker "bool option" | Stop exit worker

text \<open>
  The part of the loop body after \<open>select\<close>.  The \<open>except\<close> clause catches
  \<open>socket.error\<close> only; the \<open>finally\<close> clause closes the accepted connection in every
  case, and any other exception goes on out of \<open>run\<close>.
\<close>

definition connection_close :: "worker \<Rightarrow> worker" where
  "connection_close self =
     self\<lparr>stream := (stream self)\<lparr>socket := conn_close (socket (stream self))\<rparr>\<rparr>"

definition serve :: "worker \<Rightarrow> bool option \<Rightarrow> event \<Rightarrow> step" where
  "serve self socks ev =
     (case socks of
        None \<Rightarrow> Stop (Uncaught (NameError ''socks'')) self
      | Some False \<Rightarrow> Continue self socks
      | Some True \<Rightarrow>
          (case accept_result ev of
             AcceptError e \<Rightarrow> Continue (self\<lparr>errors := errors self + 1\<rparr>) socks
           | Accepted connection address \<Rightarrow>
               (case handle_request (gmtime ev) self connection address of
                  (None, self') \<Rightarrow>
                    Continue (connection_close (self'\<lparr>requests := requests self' + 1\<rparr>)) socks
                | (Some (SocketError e), self') \<Rightarrow>
                    Continue (connection_close (self'\<lparr>errors := errors self' + 1\<rparr>)) socks
                | (Some e, self') \<Rightarrow> Stop (Uncaught e) (connection_close self'))))"

definition run_step :: "worker \<Rightarrow> bool option \<Rightarrow> event \<Rightarrow> step" where
  "run_step self socks ev =
     (case select_result ev of
        SelectSignal SIGQUIT \<Rightarrow> Continue (self\<lparr>alive := False\<rparr>) socks
      | SelectSignal sig \<Rightarrow> Stop (SysExit 0) self
      | SelectError EINTR \<Rightarrow> Continue self socks
      | SelectError EBADF \<Rightarrow> Stop (SysExit 0) self
      | SelectError e \<Rightarrow> serve self socks ev
      | SelectReturns listener_ready \<Rightarrow> serve self (Some listener_ready) ev)"

text \<open>The loop runs while \<open>alive\<close> holds and events are left.\<close>

fun run_loop :: "worker \<Rightarrow> bool option \<Rightarrow> event list \<Rightarrow> exit option \<times> worker" where
  "run_loop self socks [] = (if alive self then (None, self) else (Some (SysExit 0), self))"
| "run_loop self socks (ev # evs) =
     (if alive self then
        (case run_step self socks ev of
           Continue self' socks' \<Rightarrow> run_loop self' socks' evs
         | Stop x self' \<Rightarrow> (Some x, self'))
      else (Some (SysExit 0), self))"

definition run :: "worker \<Rightarrow> event list \<Rightarrow> exit option \<times> worker" where
  "run self evs = run_loop self None evs"

subsection \<open>A request that does not parse\<close>

definition garbage_event :: event where
  "garbage_event =
     \<lparr>select_result = SelectReturns True,
      accept_result = Accepted \<lparr>incoming = [''GARBAGE'' @ CRLF @ CRLF], sent = [],
                                conn_closed = False\<rparr> (InetAddress ''10.0.0.1'' 4711),
      gmtime = demo_time\<rparr>"

definition truncated_event :: event where
  "truncated_event =
     \<lparr>select_result = SelectReturns True,
      accept_result = Accepted \<lparr>incoming = [''GET / HT''], sent = [],
                                conn_closed = False\<rparr> (InetAddress ''10.0.0.1'' 4711),
      gmtime = demo_time\<rparr>"

lemma parse_garbage:
  "parse_request (demo_worker\<lparr>stream := IOStream_init
        \<lparr>incoming = [''GARBAGE'' @ CRLF @ CRLF], sent = [], conn_closed = False\<rparr>,
      headers_sent := False\<rparr>) a =
   (Inl ValueError,
    demo_worker\<lparr>stream := \<lparr>socket = \<lparr>incoming = [], sent = [], conn_closed = False\<rparr>,
                            read_buffer = [], write_buffer = []\<rparr>,
                headers_sent := False\<rparr>)"
  by (simp add: parse_request_def demo_worker_def IOStream_init_def
     read_until_def read_until_loop.simps recv_def str_in_def str_find_def str_split.simps
     numeral_2_eq_2 CRLF_def CR_def LF_def)

lemma parse_truncated:
  "parse_request (demo_worker\<lparr>stream := IOStream_init
        \<lparr>incoming = [''GET / HT''], sent = [], conn_closed = False\<rparr>,
      headers_sent := False\<rparr>) a =
   (Inl ValueError,
    demo_worker\<lparr>stream := \<lparr>socket = \<lparr>incoming = [], sent = [], conn_closed = False\<rparr>,
                            read_buffer = ''GET / HT'', write_buffer = []\<rparr>,
                headers_sent := False\<rparr>)"
  by (simp add: parse_request_def demo_worker_def IOStream_init_def
     read_until_def read_until_loop.simps recv_def str_in_def str_find_def
     CRLF_def CR_def LF_def)

lemma demo_worker_alive: "alive demo_worker"
  by (simp add: demo_worker_def)

text \<open>
  Claim C2 on the request \<open>GARBAGE\<close> followed by two line ends, and on a request cut
  off before the end of its headers.  In both, \<open>parse_request\<close> raises \<open>ValueError\<close>; the
  connection is closed and nothing has been written to it, as the claim says.  But the
  error counter is unchanged, and the exception leaves \<open>run\<close>: the worker process ends
  with it, whatever events would follow.
\<close>

theorem run_malformed_request_kills_worker:
  "fst (run demo_worker (garbage_event # evs)) = Some (Uncaught ValueError) \<and>
   errors (snd (run demo_worker (garbage_event # evs))) = errors demo_worker \<and>
   requests (snd (run demo_worker (garbage_event # evs))) = requests demo_worker \<and>
   wire (snd (run demo_worker (garbage_event # evs))) = [] \<and>
   conn_closed (socket (stream (snd (run demo_worker (garbage_event # evs))))) \<and>
   fst (run demo_worker (truncated_event # evs)) = Some (Uncaught ValueError) \<and>
   errors (snd (run demo_worker (truncated_event # evs))) = errors demo_worker"
  using parse_garbage parse_truncated demo_worker_alive
  by (simp add: run_def run_step_def serve_def handle_request_def garbage_event_def
      truncated_event_def connection_close_def conn_close_def wire_def)

text \<open>The sibling case: a \<open>socket.error\<close> from \<open>accept\<close> is counted and the loop goes on.\<close>

lemma run_accept_error_counted:
  "alive self \<Longrightarrow>
   run_loop self (Some True)
     (\<lparr>select_result = SelectReturns True, accept_result = AcceptError e, gmtime = t\<rparr> # evs) =
   run_loop (self\<lparr>errors := errors self + 1\<rparr>) (Some True) evs"
  by (simp add: run_step_def serve_def)

section \<open>Starting a worker\<close>

text \<open>
  The keys of \<open>DEFAULT_CONFIG\<close> that a worker process reads.  What can be imported is
  a table from module names to the attributes of the module.
\<close>

definition DEFAULT_CONFIG :: config where
  "DEFAULT_CONFIG =
     \<lparr>cfg_application = Callable demo_app, cfg_access_log = Some FileObject,
      cfg_real_ip_header = None\<rparr>"

text \<open>\<open>s.rpartition(sep)\<close>: split at the last occurrence of \<open>sep\<close>.\<close>

definition str_rpartition :: "string \<Rightarrow> string \<Rightarrow> string \<times> string \<times> string" where
  "str_rpartition s sep =
     (case find_idx (rev sep) (rev s) of
        None \<Rightarrow> ([], [], s)
      | Some i \<Rightarrow> (take (length s - i - length sep) s, sep, drop (length s - i) s))"

text \<open>
  \<open>get_app\<close>: the name is split at its last dot into module name and attribute name.
  Importing an empty module name raises \<open>ValueError\<close>, importing a module that is not
  there raises \<open>ImportError\<close>, and a module without the attribute gives
  \<open>AttributeError\<close>.
\<close>

definition get_app ::
  "(string \<rightharpoonup> (string \<rightharpoonup> wsgi_app)) \<Rightarrow> string \<Rightarrow> error + wsgi_app" where
  "get_app modules name =
     (let p = str_rpartition name ''.'';
          module_name = fst p;
          app_name = snd (snd p)
      in if module_name = [] then Inl ValueError
         else (case modules module_name of
                 None \<Rightarrow> Inl (ImportError module_name)
               | Some attrs \<Rightarrow>
                   (case attrs app_name of
                      None \<Rightarrow> Inl (AttributeError app_name)
                    | Some a \<Rightarrow> Inr a)))"

lemma get_app_cases:
  "get_app modules ''app'' = Inl ValueError"
  "get_app Map.empty ''pkg.mod.app'' = Inl (ImportError ''pkg.mod'')"
  "get_app [''pkg.mod'' \<mapsto> Map.empty] ''pkg.mod.app'' = Inl (AttributeError ''app'')"
  "get_app [''pkg.mod'' \<mapsto> [''app'' \<mapsto> a]] ''pkg.mod.app'' = Inr a"
  by (simp_all add: get_app_def str_rpartition_def)

text \<open>
  Attribute lookup on \<open>self\<close> in \<open>__init__\<close>: the instance attributes assigned so far,
  then the attributes of the class, then those of \<open>object\<close>.
\<close>

definition HornedWorkerProcess_attributes :: "string list" where
  "HornedWorkerProcess_attributes =
     [''__init__'', ''run'', ''die_gracefully'', ''die_immediately'', ''handle_request'',
      ''parse_request'', ''execute_request'', ''send_headers'', ''send_response'',
      ''__doc__'', ''__module__'', ''__dict__'', ''__weakref__'']"

definition object_attributes :: "string list" where
  "object_attributes =
     [''__class__'', ''__delattr__'', ''__doc__'', ''__format__'', ''__getattribute__'',
      ''__hash__'', ''__init__'', ''__new__'', ''__reduce__'', ''__reduce_ex__'',
      ''__repr__'', ''__setattr__'', ''__sizeof__'', ''__str__'', ''__subclasshook__'']"

definition getattr_self :: "string list \<Rightarrow> string \<Rightarrow> error + unit" where
  "getattr_self instance_attributes name =
     (if name \<in> set instance_attributes \<or> name \<in> set HornedWorkerProcess_attributes \<or>
         name \<in> set object_attributes
      then Inr () else Inl (AttributeError name))"

text \<open>
  \<open>HornedWorkerProcess.__init__\<close>.  Its arguments besides the configuration are what
  it reads from outside: the import table, \<open>os.environ\<close>, the host name, and the port of
  the listening socket.  The statements run in the order of the source: the application
  is resolved first, then \<open>self.get\<close> is looked up, then the remaining attributes are
  set.  The last branch stands for the rest of the constructor after a lookup that
  succeeds, with the configured \<open>access_log\<close> as the value of the call; the pipe and the
  signal handlers have no field in \<open>worker\<close>.
\<close>

definition HornedWorkerProcess_init ::
  "(string \<rightharpoonup> (string \<rightharpoonup> wsgi_app)) \<Rightarrow> (string \<rightharpoonup> string) \<Rightarrow> string \<Rightarrow> nat \<Rightarrow> config \<Rightarrow>
   error + worker" where
  "HornedWorkerProcess_init modules os_environ hostname port cfg =
     (case (case cfg_application cfg of
              Callable a \<Rightarrow> Inr a
            | Dotted name \<Rightarrow> get_app modules name) of
        Inl e \<Rightarrow> Inl e
      | Inr a \<Rightarrow>
          (case getattr_self [''sock'', ''config'', ''app''] ''get'' of
             Inl e \<Rightarrow> Inl e
           | Inr u \<Rightarrow>
               Inr \<lparr>config = cfg, app = a, access_log = cfg_access_log cfg, alive = True,
                    requests = 0, errors = 0,
                    baseenv = (map_option Str \<circ> os_environ)
                      (''SERVER_NAME'' \<mapsto> Str hostname,
                       ''SERVER_PORT'' \<mapsto> Str (format_d port),
                       ''SCRIPT_NAME'' \<mapsto> Str [],
                       ''wsgi.version'' \<mapsto> IntPair 1 0,
                       ''wsgi.url_scheme'' \<mapsto> Str ''http'',
                       ''wsgi.errors'' \<mapsto> StderrFile,
                       ''wsgi.multithread'' \<mapsto> Bool False,
                       ''wsgi.multiprocess'' \<mapsto> Bool True,
                       ''wsgi.run_once'' \<mapsto> Bool False),
                    stream = IOStream_init \<lparr>incoming = [], sent = [], conn_closed = False\<rparr>,
                    headers_sent = False, request_log = []\<rparr>))"

text \<open>The child's side of \<open>HornedWorker.run\<close>: construct the worker process and run it.\<close>

definition HornedWorker_run_child ::
  "(string \<rightharpoonup> (string \<rightharpoonup> wsgi_app)) \<Rightarrow> (string \<rightharpoonup> string) \<Rightarrow> string \<Rightarrow> nat \<Rightarrow> config \<Rightarrow>
   event list \<Rightarrow> exit option \<times> worker option" where
  "HornedWorker_run_child modules os_environ hostname port cfg evs =
     (case HornedWorkerProcess_init modules os_environ hostname port cfg of
        Inl e \<Rightarrow> (Some (Uncaught e), None)
      | Inr self \<Rightarrow> (case run self evs of (x, self') \<Rightarrow> (x, Some self')))"

lemma getattr_self_get: "getattr_self [''sock'', ''config'', ''app''] ''get'' = Inl (AttributeError ''get'')"
  by (simp add: getattr_self_def HornedWorkerProcess_attributes_def object_attributes_def)

text \<open>
  Claim C1.  The expression \<open>self.get\<close> in \<open>__init__\<close> finds no attribute \<open>get\<close>: with the
  default configuration, and with any configuration whose application is a callable,
  the constructor raises \<open>AttributeError\<close>; for no configuration does it return a worker
  (a dotted application name can only fail earlier, in \<open>get_app\<close>).  The forked child
  ends with the exception before it enters the accept loop.
\<close>

theorem HornedWorkerProcess_init_raises:
  "HornedWorkerProcess_init modules os_environ hostname port DEFAULT_CONFIG =
     Inl (AttributeError ''get'') \<and>
   HornedWorkerProcess_init modules os_environ hostname port
     (cfg\<lparr>cfg_application := Callable a\<rparr>) = Inl (AttributeError ''get'') \<and>
   isl (HornedWorkerProcess_init modules os_environ hostname port cfg) \<and>
   HornedWorker_run_child modules os_environ hostname port DEFAULT_CONFIG evs =
     (Some (Uncaught (AttributeError ''get'')), None)"
  by (simp add: HornedWorker_run_child_def HornedWorkerProcess_init_def getattr_self_get
      DEFAULT_CONFIG_def split: sum.splits app_ref.splits)

end
